(* ===== verification/Prelude.thy ===== *)
theory Prelude
  imports Main "HOL-Library.Word"
begin

section \<open>Shared vocabulary of the server model\<close>

text \<open>
  Machine integers, C++ exceptions as values, memory reads and writes with their bounds, and
  the byte orders of the host and of the network. Every component theory builds on these.
\<close>

named_theorems byte_order \<open>conversion between host order, network order and byte lists\<close>
named_theorems res_simps \<open>sequencing of operations that may throw\<close>

type_synonym u8 = "8 word"
type_synonym u16 = "16 word"
type_synonym u32 = "32 word"
type_synonym u64 = "64 word"
type_synonym bytes = "u8 list"

subsection \<open>Exceptions as values\<close>

text \<open>
  Whatever leaves a function other than by returning. \<open>Undefined_behaviour\<close> marks an
  execution to which C++ gives no meaning (a read outside a buffer, an access to a destroyed
  object); a safety property says that it is never the result.
\<close>

datatype cpp_exn =
    Invalid_argument string
  | Runtime_error string
  | Thrown_string string
  | Library_error string
  | Bad_weak_ptr
  | Undefined_behaviour string

type_synonym 'a res = "cpp_exn + 'a"

definition rbind :: "'a res \<Rightarrow> ('a \<Rightarrow> 'b res) \<Rightarrow> 'b res" where
  "rbind r f = (case r of Inl e \<Rightarrow> Inl e | Inr a \<Rightarrow> f a)"

lemma rbind_Inl [simp, res_simps]: "rbind (Inl e) f = Inl e"
  by (simp add: rbind_def)

lemma rbind_Inr [simp, res_simps]: "rbind (Inr a) f = f a"
  by (simp add: rbind_def)

lemma rbind_eq_Inr [res_simps]: "rbind r f = Inr b \<longleftrightarrow> (\<exists>a. r = Inr a \<and> f a = Inr b)"
  by (cases r) auto

lemma rbind_eq_Inl [res_simps]:
  "rbind r f = Inl e \<longleftrightarrow> r = Inl e \<or> (\<exists>a. r = Inr a \<and> f a = Inl e)"
  by (cases r) auto

lemma rbind_assoc: "rbind (rbind r f) g = rbind r (\<lambda>a. rbind (f a) g)"
  by (cases r) auto

lemma rbind_cong [fundef_cong]:
  "r = r' \<Longrightarrow> (\<And>a. r' = Inr a \<Longrightarrow> f a = g a) \<Longrightarrow> rbind r f = rbind r' g"
  by (cases r') auto

fun is_ub :: "'a res \<Rightarrow> bool" where
  "is_ub (Inl (Undefined_behaviour _)) = True"
| "is_ub _ = False"

subsection \<open>Memory: slices of a buffer\<close>

definition mem_read :: "'a list \<Rightarrow> nat \<Rightarrow> nat \<Rightarrow> 'a list res" where
  "mem_read buf off n =
     (if off + n \<le> length buf then Inr (take n (drop off buf))
      else Inl (Undefined_behaviour ''read outside the buffer''))"

definition mem_write :: "'a list \<Rightarrow> nat \<Rightarrow> 'a list \<Rightarrow> 'a list res" where
  "mem_write buf off bs =
     (if off + length bs \<le> length buf
      then Inr (take off buf @ bs @ drop (off + length bs) buf)
      else Inl (Undefined_behaviour ''write outside the buffer''))"

definition slice :: "'a list \<Rightarrow> nat \<Rightarrow> nat \<Rightarrow> 'a list" where
  "slice buf off n = take n (drop off buf)"

lemma mem_read_inside [simp]: "off + n \<le> length buf \<Longrightarrow> mem_read buf off n = Inr (slice buf off n)"
  by (simp add: mem_read_def slice_def)

lemma mem_read_eq_Inr: "mem_read buf off n = Inr bs \<longleftrightarrow> off + n \<le> length buf \<and> bs = slice buf off n"
  by (auto simp: mem_read_def slice_def)

lemma mem_write_inside [simp]:
  "off + length bs \<le> length buf \<Longrightarrow>
     mem_write buf off bs = Inr (take off buf @ bs @ drop (off + length bs) buf)"
  by (simp add: mem_write_def)

lemma length_slice [simp]: "off + n \<le> length buf \<Longrightarrow> length (slice buf off n) = n"
  by (simp add: slice_def)

lemma slice_append [simp]: "slice (xs @ ys) (length xs) n = take n ys"
  by (simp add: slice_def)

text \<open>\<^verbatim>\<open>std::vector::resize\<close>: truncate, or pad with value-initialised elements.\<close>

definition vector_resize :: "nat \<Rightarrow> bytes \<Rightarrow> bytes" where
  "vector_resize n xs = take n xs @ replicate (n - length xs) 0"

lemma length_vector_resize [simp]: "length (vector_resize n xs) = n"
  by (simp add: vector_resize_def)

lemma unat_u8_less: "unat (b :: u8) < 256"
  using unsigned_less [of b] by simp

lemma unat_u16_less: "unat (w :: u16) < 65536"
  using unsigned_less [of w] by simp

lemma unat_u32_less: "unat (w :: u32) < 4294967296"
  using unsigned_less [of w] by simp

lemma unat_of_nat_u16: "n < 65536 \<Longrightarrow> unat (of_nat n :: u16) = n"
  by (simp add: unat_of_nat)

lemma unat_of_nat_u32: "n < 4294967296 \<Longrightarrow> unat (of_nat n :: u32) = n"
  by (simp add: unat_of_nat)

lemma unat_ucast_u16_u64: "unat (ucast (w :: u16) :: u64) = unat w"
  using unat_u16_less [of w] by (simp add: unsigned_ucast_eq take_bit_nat_eq_self)

lemma unat_ucast_u32_u64: "unat (ucast (w :: u32) :: u64) = unat w"
  using unat_u32_less [of w] by (simp add: unsigned_ucast_eq take_bit_nat_eq_self)

lemma unat_ucast_u64_u32: "unat (w :: u64) < 4294967296 \<Longrightarrow> unat (ucast w :: u32) = unat w"
  by (simp add: unsigned_ucast_eq take_bit_nat_eq_self)

subsection \<open>Byte orders\<close>

datatype endian = Little | Big

fun le_val :: "bytes \<Rightarrow> nat" where
  "le_val [] = 0"
| "le_val (b # bs) = unat b + 256 * le_val bs"

fun le_bytes :: "nat \<Rightarrow> nat \<Rightarrow> bytes" where
  "le_bytes 0 v = []"
| "le_bytes (Suc n) v = of_nat v # le_bytes n (v div 256)"

text \<open>What \<^verbatim>\<open>memcpy\<close> out of and into an integer object does on a host of the given order.\<close>

definition load :: "endian \<Rightarrow> bytes \<Rightarrow> nat" where
  "load e bs = (case e of Little \<Rightarrow> le_val bs | Big \<Rightarrow> le_val (rev bs))"

definition store :: "endian \<Rightarrow> nat \<Rightarrow> nat \<Rightarrow> bytes" where
  "store e n v = (case e of Little \<Rightarrow> le_bytes n v | Big \<Rightarrow> rev (le_bytes n v))"

text \<open>\<^verbatim>\<open>ntohs\<close>, \<^verbatim>\<open>ntohl\<close> and their inverses reverse the bytes on a little-endian host only.\<close>

definition swap_bytes :: "endian \<Rightarrow> nat \<Rightarrow> nat \<Rightarrow> nat" where
  "swap_bytes e n v = (case e of Little \<Rightarrow> le_val (rev (le_bytes n v)) | Big \<Rightarrow> v)"

definition ntohs :: "endian \<Rightarrow> u16 \<Rightarrow> u16" where
  "ntohs e w = of_nat (swap_bytes e 2 (unat w))"

definition htons :: "endian \<Rightarrow> u16 \<Rightarrow> u16" where
  "htons e w = of_nat (swap_bytes e 2 (unat w))"

definition ntohl :: "endian \<Rightarrow> u32 \<Rightarrow> u32" where
  "ntohl e w = of_nat (swap_bytes e 4 (unat w))"

definition htonl :: "endian \<Rightarrow> u32 \<Rightarrow> u32" where
  "htonl e w = of_nat (swap_bytes e 4 (unat w))"

definition load_u16 :: "endian \<Rightarrow> bytes \<Rightarrow> u16" where
  "load_u16 e bs = of_nat (load e bs)"

definition load_u32 :: "endian \<Rightarrow> bytes \<Rightarrow> u32" where
  "load_u32 e bs = of_nat (load e bs)"

definition store_u16 :: "endian \<Rightarrow> u16 \<Rightarrow> bytes" where
  "store_u16 e w = store e 2 (unat w)"

definition store_u32 :: "endian \<Rightarrow> u32 \<Rightarrow> bytes" where
  "store_u32 e w = store e 4 (unat w)"

abbreviation be_val :: "bytes \<Rightarrow> nat" where
  "be_val bs \<equiv> load Big bs"

abbreviation be_bytes :: "nat \<Rightarrow> nat \<Rightarrow> bytes" where
  "be_bytes n v \<equiv> store Big n v"

lemma length_le_bytes [simp]: "length (le_bytes n v) = n"
  by (induction n arbitrary: v) auto

lemma length_store [simp]: "length (store e n v) = n"
  by (cases e) (simp_all add: store_def)

lemma length_store_u16 [simp]: "length (store_u16 e w) = 2"
  by (simp add: store_u16_def)

lemma length_store_u32 [simp]: "length (store_u32 e w) = 4"
  by (simp add: store_u32_def)

lemma le_val_less: "le_val bs < 256 ^ length bs"
proof (induction bs)
  case (Cons b bs)
  have "unat b < 256" by (rule unat_u8_less)
  with Cons show ?case by simp
qed simp

lemma le_val_le_bytes: "le_val (le_bytes n v) = v mod 256 ^ n"
proof (induction n arbitrary: v)
  case (Suc n)
  have "v mod (256 * 256 ^ n) = v mod 256 + 256 * (v div 256 mod 256 ^ n)"
    by (simp add: mod_mult2_eq)
  with Suc show ?case by (simp add: unat_of_nat)
qed simp

lemma le_bytes_le_val: "length bs = n \<Longrightarrow> le_bytes n (le_val bs) = bs"
proof (induction bs arbitrary: n)
  case (Cons b bs)
  have b: "unat b < 256" by (rule unat_u8_less)
  then have "(unat b + 256 * le_val bs) div 256 = le_val bs" by simp
  moreover have "(of_nat (unat b + 256 * le_val bs) :: u8) = b"
    by (simp only: word_unat_eq_iff unat_of_nat) (simp add: b)
  ultimately show ?case using Cons by (cases n) auto
qed simp

lemma load_less: "load e bs < 256 ^ length bs"
  using le_val_less [of bs] le_val_less [of "rev bs"] by (cases e) (simp_all add: load_def)

lemma load_store [byte_order]: "load e (store e n v) = v mod 256 ^ n"
  by (cases e) (simp_all add: load_def store_def le_val_le_bytes)

lemma store_load [byte_order]: "length bs = n \<Longrightarrow> store e n (load e bs) = bs"
  by (cases e) (simp_all add: load_def store_def le_bytes_le_val)

lemma swap_load [byte_order]: "length bs = n \<Longrightarrow> swap_bytes e n (load e bs) = be_val bs"
  by (cases e) (simp_all add: load_def swap_bytes_def le_bytes_le_val)

lemma store_swap [byte_order]: "store e n (swap_bytes e n v) = be_bytes n v"
  using le_bytes_le_val [of "rev (le_bytes n v)" n] by (cases e) (simp_all add: store_def swap_bytes_def)

lemma swap_bytes_less: "v < 256 ^ n \<Longrightarrow> swap_bytes e n v < 256 ^ n"
  using le_val_less [of "rev (le_bytes n v)"] by (cases e) (simp_all add: swap_bytes_def)

subsection \<open>Network-order fields, whatever the host\<close>

lemma unat_load_u16: "length bs = 2 \<Longrightarrow> unat (load_u16 e bs) = load e bs"
  using load_less [of e bs] by (simp add: load_u16_def unat_of_nat)

lemma unat_load_u32: "length bs = 4 \<Longrightarrow> unat (load_u32 e bs) = load e bs"
  using load_less [of e bs] by (simp add: load_u32_def unat_of_nat)

lemma ntohs_load [byte_order]: "length bs = 2 \<Longrightarrow> ntohs e (load_u16 e bs) = of_nat (be_val bs)"
  by (simp add: ntohs_def unat_load_u16 swap_load)

lemma ntohl_load [byte_order]: "length bs = 4 \<Longrightarrow> ntohl e (load_u32 e bs) = of_nat (be_val bs)"
  by (simp add: ntohl_def unat_load_u32 swap_load)

lemma store_htons [byte_order]: "store_u16 e (htons e w) = be_bytes 2 (unat w)"
proof -
  have "unat w < 256 ^ 2" using unat_u16_less [of w] by simp
  from swap_bytes_less [OF this, of e] show ?thesis
    by (simp add: store_u16_def htons_def unat_of_nat store_swap)
qed

lemma store_htonl [byte_order]: "store_u32 e (htonl e w) = be_bytes 4 (unat w)"
proof -
  have "unat w < 256 ^ 4" using unat_u32_less [of w] by simp
  from swap_bytes_less [OF this, of e] show ?thesis
    by (simp add: store_u32_def htonl_def unat_of_nat store_swap)
qed

lemma be_val_be_bytes_u16 [byte_order]: "be_val (be_bytes 2 (unat (w :: u16))) = unat w"
  using unat_u16_less [of w] by (simp add: load_store)

lemma be_val_be_bytes_u32 [byte_order]: "be_val (be_bytes 4 (unat (w :: u32))) = unat w"
  using unat_u32_less [of w] by (simp add: load_store)

lemma load_store_u16 [byte_order]: "load_u16 e (store_u16 e w) = w"
  using unat_u16_less [of w] by (simp add: load_u16_def store_u16_def load_store)

lemma load_store_u32 [byte_order]: "load_u32 e (store_u32 e w) = w"
  using unat_u32_less [of w] by (simp add: load_u32_def store_u32_def load_store)

lemma store_load_u16 [byte_order]: "length bs = 2 \<Longrightarrow> store_u16 e (load_u16 e bs) = bs"
  by (simp add: store_u16_def unat_load_u16 store_load)

end
