(* ===== verification/Packet_Types.thy ===== *)
theory Packet_Types
  imports Prelude
begin

section \<open>Packet versions, types, flags and sub-header types\<close>

text \<open>
  The enumerations of \<open>common/packet_enums.hpp\<close> and \<open>common/sub_header_type.hpp\<close> with their
  underlying values, and the conversions of \<open>common/packet.cpp\<close> that put them on the wire.
  The conversions do not use the underlying values: a packet of type \<open>Auth\<close> has no wire
  byte, and no wire byte is read as \<open>Auth\<close> or as the sub-header \<open>Action\<close>.
\<close>

datatype packet_version = V_Unknown | V_v1

datatype packet_type = PT_Unknown | PT_Auth | PT_Account | PT_Text | PT_File | PT_Video

datatype packet_flags = PF_None

datatype sub_header_type = SH_Unknown | SH_Action | SH_SessionId | SH_UserId | SH_AuthToken

text \<open>The underlying values the enumerations declare.\<close>

fun packet_version_value :: "packet_version \<Rightarrow> u8" where
  "packet_version_value V_Unknown = 0"
| "packet_version_value V_v1 = 1"

fun packet_type_value :: "packet_type \<Rightarrow> u8" where
  "packet_type_value PT_Unknown = 0"
| "packet_type_value PT_Auth = 1"
| "packet_type_value PT_Account = 2"
| "packet_type_value PT_Text = 3"
| "packet_type_value PT_File = 4"
| "packet_type_value PT_Video = 5"

fun sub_header_type_value :: "sub_header_type \<Rightarrow> u8" where
  "sub_header_type_value SH_Unknown = 0"
| "sub_header_type_value SH_Action = 1"
| "sub_header_type_value SH_SessionId = 10"
| "sub_header_type_value SH_UserId = 11"
| "sub_header_type_value SH_AuthToken = 12"

text \<open>The conversions of \<open>Packet\<close>: switches over the cases they name, with a default.\<close>

fun packet_version_to_byte :: "packet_version \<Rightarrow> u8" where
  "packet_version_to_byte V_v1 = 1"
| "packet_version_to_byte _ = 0"

definition packet_version_from_byte :: "u8 \<Rightarrow> packet_version" where
  "packet_version_from_byte b = (if b = 1 then V_v1 else V_Unknown)"

fun packet_type_to_byte :: "packet_type \<Rightarrow> u8" where
  "packet_type_to_byte PT_Text = 1"
| "packet_type_to_byte PT_File = 2"
| "packet_type_to_byte PT_Video = 3"
| "packet_type_to_byte _ = 0"

definition packet_type_from_byte :: "u8 \<Rightarrow> packet_type" where
  "packet_type_from_byte b =
     (if b = 1 then PT_Text
      else if b = 2 then PT_File
      else if b = 3 then PT_Video
      else PT_Unknown)"

definition packet_flags_to_bytes :: "packet_flags \<Rightarrow> u16" where
  "packet_flags_to_bytes f = 0"

definition packet_flags_from_bytes :: "u16 \<Rightarrow> packet_flags" where
  "packet_flags_from_bytes w = PF_None"

fun sub_header_to_byte :: "sub_header_type \<Rightarrow> u8" where
  "sub_header_to_byte SH_SessionId = 10"
| "sub_header_to_byte SH_UserId = 11"
| "sub_header_to_byte SH_AuthToken = 12"
| "sub_header_to_byte _ = 0"

definition sub_header_from_byte :: "u8 \<Rightarrow> sub_header_type" where
  "sub_header_from_byte b =
     (if b = 10 then SH_SessionId
      else if b = 11 then SH_UserId
      else if b = 12 then SH_AuthToken
      else SH_Unknown)"

subsection \<open>The types with a wire byte\<close>

definition wire_packet_types :: "packet_type list" where
  "wire_packet_types = [PT_Text, PT_File, PT_Video]"

definition wire_sub_header_types :: "sub_header_type list" where
  "wire_sub_header_types = [SH_SessionId, SH_UserId, SH_AuthToken]"

lemma packet_type_from_to:
  "packet_type_from_byte (packet_type_to_byte t) = (if t \<in> set wire_packet_types then t else PT_Unknown)"
  by (cases t) (simp_all add: packet_type_from_byte_def wire_packet_types_def)

lemma packet_type_to_from:
  "packet_type_from_byte b \<noteq> PT_Unknown \<Longrightarrow> packet_type_to_byte (packet_type_from_byte b) = b"
  by (auto simp: packet_type_from_byte_def split: if_splits)

lemma packet_type_from_byte_wire:
  "packet_type_from_byte b = t \<Longrightarrow> t \<noteq> PT_Unknown \<Longrightarrow> t \<in> set wire_packet_types"
  by (auto simp: packet_type_from_byte_def wire_packet_types_def split: if_splits)

lemma packet_version_from_to:
  "packet_version_from_byte (packet_version_to_byte v) = v"
  by (cases v) (simp_all add: packet_version_from_byte_def)

lemma packet_version_to_from:
  "packet_version_from_byte b \<noteq> V_Unknown \<Longrightarrow> packet_version_to_byte (packet_version_from_byte b) = b"
  by (auto simp: packet_version_from_byte_def split: if_splits)

lemma sub_header_from_to:
  "sub_header_from_byte (sub_header_to_byte t) = (if t \<in> set wire_sub_header_types then t else SH_Unknown)"
  by (cases t) (simp_all add: sub_header_from_byte_def wire_sub_header_types_def)

lemma sub_header_to_from:
  "sub_header_from_byte b \<noteq> SH_Unknown \<Longrightarrow> sub_header_to_byte (sub_header_from_byte b) = b"
  by (auto simp: sub_header_from_byte_def split: if_splits)

lemma sub_header_from_byte_wire:
  "sub_header_from_byte b = t \<Longrightarrow> t \<noteq> SH_Unknown \<Longrightarrow> t \<in> set wire_sub_header_types"
  by (auto simp: sub_header_from_byte_def wire_sub_header_types_def split: if_splits)

end
