(* ===== verification/Codec.thy ===== *)
theory Codec
  imports Prelude
begin

section \<open>Self-delimiting encodings\<close>

text \<open>
  Both wire formats of the program are sequences of self-delimiting items: the sub-headers of a
  packet's header region, and the length-prefixed frames of the byte stream of a connection.
  This theory states that contract once and proves what follows from it for sequences: decoding
  an encoded sequence gives the sequence back, a decoded sequence re-encodes to the bytes it was
  read from, and the split of a byte string into items is unique.
\<close>

function decode_all :: "('b list \<Rightarrow> ('a \<times> 'b list) option) \<Rightarrow> 'b list \<Rightarrow> 'a list \<times> 'b list" where
  "decode_all dec bs =
     (case dec bs of
        None \<Rightarrow> ([], bs)
      | Some (x, rest) \<Rightarrow>
          if length rest < length bs
          then (let (xs, left) = decode_all dec rest in (x # xs, left))
          else ([], bs))"
  by pat_completeness auto
termination
  by (relation "measure (\<lambda>(dec, bs). length bs)") auto

declare decode_all.simps [simp del]

locale self_delimiting =
  fixes enc :: "'a \<Rightarrow> 'b list"
    and dec :: "'b list \<Rightarrow> ('a \<times> 'b list) option"
    and valid :: "'a \<Rightarrow> bool"
  assumes dec_enc: "valid x \<Longrightarrow> dec (enc x @ rest) = Some (x, rest)"
    and dec_sound: "dec bs = Some (x, rest) \<Longrightarrow> valid x \<and> bs = enc x @ rest"
    and enc_nonempty: "valid x \<Longrightarrow> enc x \<noteq> []"
begin

lemma decode_all_None: "dec bs = None \<Longrightarrow> decode_all dec bs = ([], bs)"
  by (simp add: decode_all.simps)

lemma decode_all_enc: "valid x \<Longrightarrow> decode_all dec (enc x @ rest) = apfst ((#) x) (decode_all dec rest)"
  using enc_nonempty [of x]
  by (subst decode_all.simps) (simp add: dec_enc split: prod.split)

lemma decode_all_concat:
  assumes "\<forall>x \<in> set xs. valid x" and "dec left = None"
  shows "decode_all dec (concat (map enc xs) @ left) = (xs, left)"
  using assms(1)
  by (induction xs) (simp_all add: decode_all_None [OF assms(2)] decode_all_enc)

lemma decode_all_sound:
  "decode_all dec bs = (xs, left) \<Longrightarrow>
     bs = concat (map enc xs) @ left \<and> (\<forall>x \<in> set xs. valid x) \<and> dec left = None"
proof (induction "length bs" arbitrary: bs xs left rule: less_induct)
  case less
  show ?case
  proof (cases "dec bs")
    case None
    with less.prems show ?thesis by (simp add: decode_all_None)
  next
    case (Some p)
    then obtain x rest where d: "dec bs = Some (x, rest)" by (cases p) auto
    from dec_sound [OF d] have v: "valid x" and bs: "bs = enc x @ rest" by auto
    obtain ys l where r: "decode_all dec rest = (ys, l)" by (cases "decode_all dec rest")
    have "length rest < length bs" using bs enc_nonempty [OF v] by simp
    from less.hyps [OF this r] have "rest = concat (map enc ys) @ l \<and> (\<forall>x \<in> set ys. valid x) \<and> dec l = None" .
    moreover have "xs = x # ys" and "left = l"
      using less.prems v r by (simp_all add: bs decode_all_enc)
    ultimately show ?thesis using v bs by simp
  qed
qed

lemma decode_all_complete_iff:
  "decode_all dec bs = (xs, []) \<longleftrightarrow> bs = concat (map enc xs) \<and> (\<forall>x \<in> set xs. valid x) \<and> dec [] = None"
  using decode_all_sound [of bs xs "[]"] decode_all_concat [of xs "[]"] by auto

lemma dec_append: "dec bs = Some (x, rest) \<Longrightarrow> dec (bs @ more) = Some (x, rest @ more)"
  using dec_sound [of bs x rest] dec_enc [of x "rest @ more"] by simp

lemma decode_all_append:
  assumes "decode_all dec bs = (xs, left)"
  shows "decode_all dec (bs @ more) = apfst ((@) xs) (decode_all dec (left @ more))"
proof -
  from decode_all_sound [OF assms] have bs: "bs = concat (map enc xs) @ left"
    and v: "\<forall>x \<in> set xs. valid x" by auto
  have "decode_all dec (concat (map enc xs) @ tail) = apfst ((@) xs) (decode_all dec tail)" for tail
    using v by (induction xs) (cases "decode_all dec tail", simp_all add: decode_all_enc apfst_def)+
  then show ?thesis by (simp add: bs)
qed

lemma encoding_unique:
  assumes "\<forall>x \<in> set xs. valid x" and "\<forall>y \<in> set ys. valid y" and "dec [] = None"
    and "concat (map enc xs) = concat (map enc ys)"
  shows "xs = ys"
  using decode_all_concat [OF assms(1,3)] decode_all_concat [OF assms(2,3)] assms(4) by simp

end

end
