(* ===== verification/Packet.thy ===== *)
theory Packet
  imports Packet_Types Codec
begin

section \<open>Packets: construction, parsing, sub-headers\<close>

text \<open>
  The class \<open>Packet\<close> of \<open>common/packet.hpp\<close> and \<open>common/packet.cpp\<close>. A received packet owns
  the bytes it was read from; a sub-header's value is a span into them, modelled as an offset and
  a length. Fields of the packet are in network order and converted with \<open>ntohs\<close> and
  \<open>ntohl\<close>; a sub-header's size is copied without conversion, so it is read in the order of the
  host, the parameter \<open>e\<close> of the definitions.
\<close>

definition PACKET_LENGTH :: u32 where "PACKET_LENGTH = 4"
definition MAX_HEADER_SIZE :: u16 where "MAX_HEADER_SIZE = 1024"
definition MAX_PAYLOAD_SIZE :: u32 where "MAX_PAYLOAD_SIZE = 1024 * 1024"
definition MAX_PACKET_SIZE :: u32 where "MAX_PACKET_SIZE = ucast MAX_HEADER_SIZE + MAX_PAYLOAD_SIZE"

definition offset_packet_size :: nat where "offset_packet_size = 0"
definition offset_version :: nat where "offset_version = 4"
definition offset_packet_type :: nat where "offset_packet_type = 5"
definition offset_header_size :: nat where "offset_header_size = 6"
definition offset_flags :: nat where "offset_flags = 8"
definition offset_sequence_id :: nat where "offset_sequence_id = 10"
definition offset_headers :: nat where "offset_headers = 14"

lemmas packet_offsets =
  offset_packet_size_def offset_version_def offset_packet_type_def offset_header_size_def
  offset_flags_def offset_sequence_id_def offset_headers_def

lemmas packet_limits = MAX_HEADER_SIZE_def MAX_PAYLOAD_SIZE_def MAX_PACKET_SIZE_def PACKET_LENGTH_def

record sub_header =
  sub_size :: u16
  sub_type :: sub_header_type
  sub_value :: "nat \<times> nat"

record packet =
  pk_packet_size :: u32
  pk_version :: packet_version
  pk_packet_type :: packet_type
  pk_header_size :: u16
  pk_flags :: packet_flags
  pk_sequence_id :: u32
  pk_offset_payload :: nat
  pk_payload_size :: u32
  pk_buffer :: bytes
  pk_headers :: "sub_header list"

record outgoing_packet =
  out_fields :: bytes
  out_headers :: bytes
  out_payload :: bytes

text \<open>\<open>OutgoingPacket::buffers\<close> is the gather list handed to a write; its bytes in order.\<close>

definition buffers :: "outgoing_packet \<Rightarrow> bytes list" where
  "buffers p = [out_fields p, out_headers p, out_payload p]"

subsection \<open>\<open>Packet::create\<close>\<close>

definition create ::
  "endian \<Rightarrow> packet_version \<Rightarrow> packet_type \<Rightarrow> packet_flags \<Rightarrow> u32 \<Rightarrow> bytes \<Rightarrow> bytes \<Rightarrow> outgoing_packet res"
where
  "create e ver ty fl sequence_id hdrs payload =
     (if ver = V_Unknown then Inl (Invalid_argument ''Invalid packet version'')
      else let ver_b = packet_version_to_byte ver in
      if ty = PT_Unknown then Inl (Invalid_argument ''Invalid packet type'')
      else let type_b = packet_type_to_byte ty in
      if length hdrs > unat MAX_HEADER_SIZE
      then Inl (Invalid_argument ''Header size exceeds the maximum allowed'')
      else let header_size = (of_nat (length hdrs) :: u16) in
      if fl \<noteq> PF_None then Inl (Invalid_argument ''Invalid packet flags'')
      else let flags_w = packet_flags_to_bytes fl in
      if length payload > unat MAX_PAYLOAD_SIZE
      then Inl (Invalid_argument ''Payload size exceeds the maximum allowed'')
      else let payload_size = (of_nat (length payload) :: u32);
               packet_size = (ucast ((of_nat offset_headers :: u64) + ucast header_size + ucast payload_size) :: u32);
               packet_size_n = htonl e packet_size;
               header_size_n = htons e header_size;
               flags_n = htons e flags_w;
               sequence_n = htonl e sequence_id in
      rbind (mem_write (replicate offset_headers 0) offset_packet_size (store_u32 e packet_size_n)) (\<lambda>f1.
      rbind (mem_write f1 offset_packet_type [type_b]) (\<lambda>f2.
      rbind (mem_write f2 offset_version [ver_b]) (\<lambda>f3.
      rbind (mem_write f3 offset_header_size (store_u16 e header_size_n)) (\<lambda>f4.
      rbind (mem_write f4 offset_flags (store_u16 e flags_n)) (\<lambda>f5.
      rbind (mem_write f5 offset_sequence_id (store_u32 e sequence_n)) (\<lambda>f6.
      Inr \<lparr>out_fields = f6, out_headers = hdrs, out_payload = payload\<rparr>)))))))"

subsection \<open>\<open>Packet::parseSubHeaders\<close>\<close>

text \<open>
  \<open>header_size_ - count\<close> is an \<^verbatim>\<open>int\<close>; compared with a \<^verbatim>\<open>sizeof\<close> it is converted to
  \<^verbatim>\<open>size_t\<close>, compared with a \<^verbatim>\<open>uint16_t\<close> it stays signed.
\<close>

definition int_to_size :: "int \<Rightarrow> u64" where
  "int_to_size i = word_of_int i"

definition mem_byte :: "bytes \<Rightarrow> nat \<Rightarrow> u8 res" where
  "mem_byte buf i = rbind (mem_read buf i 1) (\<lambda>bs. Inr (hd bs))"

text \<open>The body of the loop: the next value of \<open>count\<close> and the sub-header it appends.\<close>

definition parse_sub_header :: "endian \<Rightarrow> bytes \<Rightarrow> u16 \<Rightarrow> u16 \<Rightarrow> (u16 \<times> sub_header) res" where
  "parse_sub_header e buf header_size count =
     (if int_to_size (uint header_size - uint count) < 2
      then Inl (Invalid_argument ''Incomplete SubHeaderSize'')
      else rbind (mem_read buf (offset_headers + unat count) 2) (\<lambda>size_bytes.
      let size = load_u16 e size_bytes in
      if size > MAX_HEADER_SIZE then Inl (Invalid_argument ''Invalid sub header size'')
      else let count1 = count + 2 in
      if int_to_size (uint header_size - uint count1) < 1
      then Inl (Invalid_argument ''Incomplete SubHeaderType'')
      else rbind (mem_byte buf (offset_headers + unat count1)) (\<lambda>type_byte.
      if sub_header_from_byte type_byte = SH_Unknown then Inl (Invalid_argument ''Invalid SubHeaderType'')
      else let count2 = count1 + 1 in
      if uint header_size - uint count2 < uint size
      then Inl (Invalid_argument ''Incomplete SubHeaderValue'')
      else Inr (count2 + size,
                \<lparr>sub_size = size,
                 sub_type = sub_header_from_byte type_byte,
                 sub_value = (offset_headers + unat count2, unat size)\<rparr>))))"

lemma int_to_size_less:
  assumes "c \<le> (h :: u16)" and "unat k < 65536"
  shows "int_to_size (uint h - uint c) < k \<longleftrightarrow> unat h - unat c < unat k"
proof -
  have le: "unat c \<le> unat h" using assms(1) by (simp add: word_le_nat_alt)
  have "uint h - uint c = int (unat h - unat c)" using le by (simp add: of_nat_diff)
  then have "unat (int_to_size (uint h - uint c)) = unat h - unat c"
    using unat_u16_less [of h] by (simp add: int_to_size_def unsigned_of_int unat_of_nat take_bit_nat_eq_self_iff)
  then show ?thesis by (simp add: word_less_nat_alt)
qed


text \<open>
  What one iteration does, over naturals: with enough bytes left in the region it reads a size
  in host order, a type byte and steps over the value; no sum of \<open>count\<close> wraps.
\<close>

lemma mem_byte_inside [simp]: "i < length buf \<Longrightarrow> mem_byte buf i = Inr (buf ! i)"
  by (simp add: mem_byte_def slice_def hd_drop_conv_nth)

lemma u16_add_no_wrap: "unat a + unat b < 65536 \<Longrightarrow> unat (a + b :: u16) = unat a + unat b"
  by (simp add: unat_word_ariths)

lemma uint_diff_less: "uint (a :: u16) - uint (b :: u16) < uint (c :: u16) \<longleftrightarrow> unat a < unat b + unat c"
  unfolding uint_nat by linarith

lemma parse_sub_header_Inr:
  assumes "count < hs" and "offset_headers + unat hs \<le> length buf"
  shows "parse_sub_header e buf hs count = Inr (c', s) \<longleftrightarrow>
    (let n = unat count; size = load_u16 e (slice buf (offset_headers + n) 2);
         ty = sub_header_from_byte (buf ! (offset_headers + n + 2))
     in n + 3 + unat size \<le> unat hs \<and> size \<le> MAX_HEADER_SIZE \<and> ty \<noteq> SH_Unknown \<and>
        c' = count + 3 + size \<and> unat c' = n + 3 + unat size \<and>
        s = \<lparr>sub_size = size, sub_type = ty, sub_value = (offset_headers + n + 3, unat size)\<rparr>)"
proof -
  let ?n = "unat count" and ?h = "unat hs"
  let ?size = "load_u16 e (slice buf (offset_headers + ?n) 2)"
  let ?ty = "sub_header_from_byte (buf ! (offset_headers + ?n + 2))"
  have h: "?h < 65536" by (rule unat_u16_less)
  have nh: "?n < ?h" using assms(1) by (simp add: word_less_nat_alt)
  show ?thesis
  proof (cases "?h - ?n < 3")
    case True
    have two: "int_to_size (uint hs - uint count) < 2 \<longleftrightarrow> ?h - ?n < 2"
      using int_to_size_less [of count hs 2] assms(1) by simp
    have one: "int_to_size (uint hs - uint (count + 2)) < 1" if "\<not> ?h - ?n < 2"
    proof -
      have "unat (count + 2) = ?h" using that True h by (subst u16_add_no_wrap) auto
      then show ?thesis using int_to_size_less [of "count + 2" hs 1]
        by (simp add: word_le_nat_alt)
    qed
    show ?thesis using True two one nh assms(2)
      by (auto simp: parse_sub_header_def Let_def)
  next
    case False
    have u2: "unat (count + 2) = ?n + 2" using False h by (subst u16_add_no_wrap) auto
    have "unat (count + 2 + 1) = ?n + 3" using False h u2 by (subst u16_add_no_wrap) auto
    then have u3: "unat (count + 3) = ?n + 3" by (simp add: add.assoc)
    have two: "\<not> int_to_size (uint hs - uint count) < 2"
      using False int_to_size_less [of count hs 2] assms(1) by simp
    have one: "\<not> int_to_size (uint hs - uint (count + 2)) < 1"
      using False int_to_size_less [of "count + 2" hs 1] u2 by (simp add: word_le_nat_alt)
    have val: "uint hs - uint (count + 3) < uint ?size \<longleftrightarrow> ?h < ?n + 3 + unat ?size"
      by (simp only: uint_diff_less u3)
    have wrap: "?n + 3 + unat ?size \<le> ?h \<Longrightarrow> unat (count + 3 + ?size) = ?n + 3 + unat ?size"
      using h u3 by (subst u16_add_no_wrap) auto
    have c3: "count + 2 + 1 = count + 3" by simp
    have rd: "mem_read buf (offset_headers + ?n) 2 = Inr (slice buf (offset_headers + ?n) 2)"
      using False assms(2) by simp
    have rdb: "mem_byte buf (offset_headers + ?n + 2) = Inr (buf ! (offset_headers + ?n + 2))"
      using False assms(2) by (simp add: add.assoc)
    have step: "parse_sub_header e buf hs count =
      (if ?size > MAX_HEADER_SIZE then Inl (Invalid_argument ''Invalid sub header size'')
       else if ?ty = SH_Unknown then Inl (Invalid_argument ''Invalid SubHeaderType'')
       else if ?h < ?n + 3 + unat ?size then Inl (Invalid_argument ''Incomplete SubHeaderValue'')
       else Inr (count + 3 + ?size,
         \<lparr>sub_size = ?size, sub_type = ?ty, sub_value = (offset_headers + ?n + 3, unat ?size)\<rparr>))"
      unfolding parse_sub_header_def Let_def
      by (simp only: two one c3 val u2 u3 rd rdb rbind_Inr if_False add.assoc [symmetric])
    show ?thesis
      unfolding step Let_def using wrap
      by (cases "?size > MAX_HEADER_SIZE"; cases "?ty = SH_Unknown"; cases "?h < ?n + 3 + unat ?size") auto
  qed
qed


lemma parse_sub_header_progress:
  assumes "count < hs" and "parse_sub_header e buf hs count = Inr (c', s)"
  shows "unat count + 3 \<le> unat c' \<and> c' \<le> hs"
proof -
  let ?n = "unat count" and ?h = "unat hs" and ?z = "sub_size s"
  have h: "?h < 65536" by (rule unat_u16_less)
  from assms(2) have g1: "\<not> int_to_size (uint hs - uint count) < 2"
    and g2: "\<not> int_to_size (uint hs - uint (count + 2)) < 1"
    and g3: "\<not> uint hs - uint (count + 2 + 1) < uint ?z"
    and c': "c' = count + 2 + 1 + ?z"
    by (auto simp: parse_sub_header_def Let_def rbind_eq_Inr split: if_splits)
  have "2 \<le> ?h - ?n" using g1 int_to_size_less [of count hs 2] assms(1) by simp
  then have u2: "unat (count + 2) = ?n + 2" using h by (subst u16_add_no_wrap) auto
  with \<open>2 \<le> ?h - ?n\<close> have le: "count + 2 \<le> hs" by (simp add: word_le_nat_alt)
  have "1 \<le> ?h - (?n + 2)" using g2 int_to_size_less [OF le, of 1] u2 by simp
  then have u3: "unat (count + 2 + 1) = ?n + 3" using h u2 by (subst u16_add_no_wrap) auto
  with g3 have "?n + 3 + unat ?z \<le> ?h" by (simp only: uint_diff_less not_less)
  then have "unat c' = ?n + 3 + unat ?z" using h u3 c' by (simp add: u16_add_no_wrap)
  with \<open>?n + 3 + unat ?z \<le> ?h\<close> show ?thesis by (simp add: word_le_nat_alt)
qed

text \<open>The loop; \<open>count\<close> is the position in the region, \<open>acc\<close> the vector \<open>headers_\<close>.\<close>

function parse_sub_headers_loop ::
  "endian \<Rightarrow> bytes \<Rightarrow> u16 \<Rightarrow> u16 \<Rightarrow> sub_header list \<Rightarrow> (u16 \<times> sub_header list) res"
where
  "parse_sub_headers_loop e buf hs count acc =
     (if count < hs
      then (case parse_sub_header e buf hs count of
              Inl x \<Rightarrow> Inl x
            | Inr (count', sub) \<Rightarrow> parse_sub_headers_loop e buf hs count' (acc @ [sub]))
      else Inr (count, acc))"
  by pat_completeness auto
termination
proof (relation "measure (\<lambda>(e, buf, hs, count, acc). unat hs - unat count)")
  fix e buf hs count acc r count' and sub :: sub_header
  assume a: "count < hs" "parse_sub_header e buf hs count = Inr r" "(count', sub) = r"
  then have "unat count + 3 \<le> unat count'" and "unat count < unat hs"
    using parse_sub_header_progress [of count hs e buf count' sub] by (auto simp: word_less_nat_alt)
  then show "((e, buf, hs, count', acc @ [sub]), (e, buf, hs, count, acc))
      \<in> measure (\<lambda>(e, buf, hs, count, acc). unat hs - unat count)" by simp
qed simp

declare parse_sub_headers_loop.simps [simp del]

definition parse_sub_headers :: "endian \<Rightarrow> bytes \<Rightarrow> u16 \<Rightarrow> sub_header list res" where
  "parse_sub_headers e buf hs =
     rbind (parse_sub_headers_loop e buf hs 0 []) (\<lambda>(count, subs).
       if count \<noteq> hs then Inl (Invalid_argument ''Invalid header size'') else Inr subs)"

subsection \<open>The constructor\<close>

definition packet_from_bytes :: "endian \<Rightarrow> bytes \<Rightarrow> packet res" where
  "packet_from_bytes e buf =
     (let packet_size = (of_nat (length buf) :: u32) in
      if unat packet_size < offset_headers then Inl (Invalid_argument ''Packet size error'')
      else rbind (mem_byte buf offset_version) (\<lambda>version_b.
      let version = packet_version_from_byte version_b in
      if version = V_Unknown then Inl (Invalid_argument ''Version Error'')
      else rbind (mem_byte buf offset_packet_type) (\<lambda>type_b.
      let ptype = packet_type_from_byte type_b in
      if ptype = PT_Unknown then Inl (Invalid_argument ''packet type error'')
      else rbind (mem_read buf offset_header_size 2) (\<lambda>hs_b.
      let header_size = ntohs e (load_u16 e hs_b) in
      if header_size > MAX_HEADER_SIZE \<or> unat header_size > unat packet_size
      then Inl (Invalid_argument ''Header size error'')
      else rbind (mem_read buf offset_flags 2) (\<lambda>flags_b.
      let flags = packet_flags_from_bytes (ntohs e (load_u16 e flags_b)) in
      if flags \<noteq> PF_None then Inl (Invalid_argument ''Packet flags error'')
      else rbind (mem_read buf offset_sequence_id 4) (\<lambda>seq_b.
      let sequence_id = ntohl e (load_u32 e seq_b);
          offset_payload = offset_headers + unat header_size in
      if offset_payload > unat packet_size then Inl (Invalid_argument ''Offset payload error'')
      else let payload_size = (of_nat (unat packet_size - offset_payload) :: u32) in
      if payload_size > MAX_PAYLOAD_SIZE then Inl (Invalid_argument ''Payload size error'')
      else rbind (parse_sub_headers e buf header_size) (\<lambda>subs.
      Inr \<lparr>pk_packet_size = packet_size, pk_version = version, pk_packet_type = ptype,
           pk_header_size = header_size, pk_flags = flags, pk_sequence_id = sequence_id,
           pk_offset_payload = offset_payload, pk_payload_size = payload_size,
           pk_buffer = buf, pk_headers = subs\<rparr>)))))))"

subsection \<open>Accessors\<close>

text \<open>
  \<open>headers()\<close> and \<open>payload()\<close> are pointers into the buffer, modelled by the bytes from there on;
  \<open>payload_bytes\<close> is the \<open>payload_size()\<close> bytes a caller reads through the pointer.
\<close>

definition get_packet_size :: "packet \<Rightarrow> u32" where
  "get_packet_size p = pk_packet_size p"

definition get_version :: "packet \<Rightarrow> packet_version" where
  "get_version p = pk_version p"

definition get_packet_type :: "packet \<Rightarrow> packet_type" where
  "get_packet_type p = pk_packet_type p"

definition get_header_size :: "packet \<Rightarrow> u16" where
  "get_header_size p = pk_header_size p"

definition get_flags :: "packet \<Rightarrow> packet_flags" where
  "get_flags p = pk_flags p"

definition get_sequence_id :: "packet \<Rightarrow> u32" where
  "get_sequence_id p = pk_sequence_id p"

definition get_payload_size :: "packet \<Rightarrow> u32" where
  "get_payload_size p = pk_payload_size p"

definition headers_ptr :: "packet \<Rightarrow> bytes" where
  "headers_ptr p = drop offset_headers (pk_buffer p)"

definition payload_ptr :: "packet \<Rightarrow> bytes" where
  "payload_ptr p = drop (pk_offset_payload p) (pk_buffer p)"

definition payload_bytes :: "packet \<Rightarrow> bytes res" where
  "payload_bytes p = mem_read (payload_ptr p) 0 (unat (pk_payload_size p))"

definition span_bytes :: "packet \<Rightarrow> nat \<times> nat \<Rightarrow> bytes" where
  "span_bytes p sp = slice (pk_buffer p) (fst sp) (snd sp)"

fun find_sub :: "sub_header list \<Rightarrow> sub_header_type \<Rightarrow> sub_header option" where
  "find_sub [] t = None"
| "find_sub (s # ss) t = (if sub_type s = t then Some s else find_sub ss t)"

definition sub_header_get_uint8 :: "packet \<Rightarrow> sub_header_type \<Rightarrow> u8 option" where
  "sub_header_get_uint8 p t =
     (case find_sub (pk_headers p) t of
        None \<Rightarrow> None
      | Some s \<Rightarrow> if snd (sub_value s) \<noteq> 1 then None else Some (hd (span_bytes p (sub_value s))))"

definition sub_header_get_uint32 :: "endian \<Rightarrow> packet \<Rightarrow> sub_header_type \<Rightarrow> u32 option" where
  "sub_header_get_uint32 e p t =
     (case find_sub (pk_headers p) t of
        None \<Rightarrow> None
      | Some s \<Rightarrow> if snd (sub_value s) \<noteq> 4 then None
                  else Some (ntohl e (load_u32 e (span_bytes p (sub_value s)))))"

definition sub_eader_get_string :: "packet \<Rightarrow> sub_header_type \<Rightarrow> bytes option" where
  "sub_eader_get_string p t = map_option (\<lambda>s. span_bytes p (sub_value s)) (find_sub (pk_headers p) t)"

end
