(* ===== verification/Packet_Spec.thy ===== *)
theory Packet_Spec
  imports Packet
begin

section \<open>What packets promise\<close>

text \<open>
  The header region of a packet as a sequence of self-delimiting items, the refinement of
  \<open>parse_sub_headers\<close> to it, and the characterisation of the byte strings the constructor of
  \<open>Packet\<close> accepts.
\<close>

subsection \<open>The item format of the header region\<close>

type_synonym item = "sub_header_type \<times> bytes"

fun sh_valid :: "item \<Rightarrow> bool" where
  "sh_valid (t, v) \<longleftrightarrow> t \<in> set wire_sub_header_types \<and> length v \<le> unat MAX_HEADER_SIZE"

fun sh_encode :: "endian \<Rightarrow> item \<Rightarrow> bytes" where
  "sh_encode e (t, v) = store_u16 e (of_nat (length v)) @ [sub_header_to_byte t] @ v"

definition sh_decode :: "endian \<Rightarrow> bytes \<Rightarrow> (item \<times> bytes) option" where
  "sh_decode e bs =
     (if length bs < 3 then None
      else let n = unat (load_u16 e (take 2 bs)); t = sub_header_from_byte (bs ! 2) in
        if n \<le> unat MAX_HEADER_SIZE \<and> t \<noteq> SH_Unknown \<and> 3 + n \<le> length bs
        then Some ((t, take n (drop 3 bs)), drop (3 + n) bs) else None)"

lemma unat_MAX_HEADER_SIZE [simp]: "unat MAX_HEADER_SIZE = 1024"
  by (simp add: MAX_HEADER_SIZE_def)

lemma unat_MAX_PAYLOAD_SIZE [simp]: "unat MAX_PAYLOAD_SIZE = 1048576"
  by (simp add: MAX_PAYLOAD_SIZE_def)

lemma unat_MAX_PACKET_SIZE [simp]: "unat MAX_PACKET_SIZE = 1049600"
  by (simp add: packet_limits)

lemma sh_decode_encode:
  assumes "sh_valid x"
  shows "sh_decode e (sh_encode e x @ rest) = Some (x, rest)"
proof -
  obtain t v where x: "x = (t, v)" by (cases x)
  with assms have t: "t \<in> set wire_sub_header_types" and v: "length v \<le> 1024" by simp_all
  have "load_u16 e (take 2 (sh_encode e x @ rest)) = of_nat (length v)"
    by (simp add: x load_store_u16)
  moreover have "unat (of_nat (length v) :: u16) = length v" using v by (simp add: unat_of_nat_u16)
  moreover have "(sh_encode e x @ rest) ! 2 = sub_header_to_byte t"
    by (simp add: x nth_append)
  moreover have "sub_header_from_byte (sub_header_to_byte t) = t" "t \<noteq> SH_Unknown"
    using t by (auto simp: sub_header_from_to wire_sub_header_types_def)
  ultimately show ?thesis using v by (simp add: sh_decode_def x Let_def)
qed

lemma sh_decode_sound:
  assumes "sh_decode e bs = Some (x, rest)"
  shows "sh_valid x \<and> bs = sh_encode e x @ rest"
proof -
  let ?n = "unat (load_u16 e (take 2 bs))" and ?t = "sub_header_from_byte (bs ! 2)"
  from assms have l: "3 \<le> length bs" "3 + ?n \<le> length bs" "?n \<le> 1024" and t: "?t \<noteq> SH_Unknown"
    and x: "x = (?t, take ?n (drop 3 bs))" and rest: "rest = drop (3 + ?n) bs"
    by (auto simp: sh_decode_def Let_def split: if_splits)
  have sz: "store_u16 e (of_nat ?n) = take 2 bs" using l by (simp add: store_load_u16)
  have "bs = take 2 bs @ bs ! 2 # drop 3 bs" using l id_take_nth_drop [of 2 bs] by simp
  moreover have "drop 3 bs = take ?n (drop 3 bs) @ drop (3 + ?n) bs"
    using append_take_drop_id [of ?n "drop 3 bs"] by (simp add: add.commute)
  ultimately have split: "take 2 bs @ bs ! 2 # take ?n (drop 3 bs) @ drop (3 + ?n) bs = bs" by simp
  have "sh_valid x" using l t x sub_header_from_byte_wire [of "bs ! 2"] by simp
  moreover have "sh_encode e x @ rest = bs"
    using l t sz split by (simp add: x rest sub_header_to_from min_absorb2)
  ultimately show ?thesis by simp
qed

interpretation sub_items: self_delimiting "sh_encode e" "sh_decode e" sh_valid for e
proof
  show "sh_valid x \<Longrightarrow> sh_decode e (sh_encode e x @ rest) = Some (x, rest)" for x rest
    by (rule sh_decode_encode)
  show "sh_decode e bs = Some (x, rest) \<Longrightarrow> sh_valid x \<and> bs = sh_encode e x @ rest" for bs x rest
    by (rule sh_decode_sound)
  show "sh_valid x \<Longrightarrow> sh_encode e x \<noteq> []" for x
    by (cases x) simp
qed


subsection \<open>The loop of \<open>parseSubHeaders\<close> decodes the region\<close>

fun locate :: "nat \<Rightarrow> item list \<Rightarrow> sub_header list" where
  "locate off [] = []"
| "locate off ((t, v) # xs) =
     \<lparr>sub_size = of_nat (length v), sub_type = t, sub_value = (off + 3, length v)\<rparr>
       # locate (off + 3 + length v) xs"

definition region :: "bytes \<Rightarrow> u16 \<Rightarrow> nat \<Rightarrow> bytes" where
  "region buf hs n = slice buf (offset_headers + n) (unat hs - n)"

lemma length_region:
  "offset_headers + unat hs \<le> length buf \<Longrightarrow> n \<le> unat hs \<Longrightarrow> length (region buf hs n) = unat hs - n"
  by (simp add: region_def)

lemma region_take: "k \<le> unat hs - n \<Longrightarrow> take k (region buf hs n) = slice buf (offset_headers + n) k"
  by (simp add: region_def slice_def min_absorb1)

lemma region_drop: "drop k (region buf hs n) = region buf hs (n + k)"
  by (simp add: region_def slice_def drop_take add_ac)

lemma region_nth:
  "offset_headers + unat hs \<le> length buf \<Longrightarrow> n + k < unat hs \<Longrightarrow>
     region buf hs n ! k = buf ! (offset_headers + n + k)"
  by (simp add: region_def slice_def add.assoc)

lemma parse_sub_header_decodes:
  assumes "count < hs" and "offset_headers + unat hs \<le> length buf"
  shows "parse_sub_header e buf hs count = Inr (c', s) \<longleftrightarrow>
    (\<exists>t v. sh_decode e (region buf hs (unat count)) = Some ((t, v), region buf hs (unat c')) \<and>
       unat c' = unat count + 3 + length v \<and>
       s = \<lparr>sub_size = of_nat (length v), sub_type = t,
            sub_value = (offset_headers + unat count + 3, length v)\<rparr>)"
    (is "?L \<longleftrightarrow> ?R")
proof -
  let ?n = "unat count" and ?h = "unat hs"
  let ?size = "load_u16 e (slice buf (offset_headers + ?n) 2)"
  let ?ty = "sub_header_from_byte (buf ! (offset_headers + ?n + 2))"
  have nh: "?n < ?h" using assms(1) by (simp add: word_less_nat_alt)
  have h: "?h < 65536" by (rule unat_u16_less)
  have len: "length (region buf hs ?n) = ?h - ?n" using assms(2) nh by (simp add: length_region)
  have dec: "sh_decode e (region buf hs ?n) =
    (if ?n + 3 + unat ?size \<le> ?h \<and> ?size \<le> MAX_HEADER_SIZE \<and> ?ty \<noteq> SH_Unknown
     then Some ((?ty, slice buf (offset_headers + ?n + 3) (unat ?size)), region buf hs (?n + 3 + unat ?size))
     else None)"
  proof (cases "?h - ?n < 3")
    case True
    then have "\<not> ?n + 3 + unat ?size \<le> ?h" using nh by linarith
    then show ?thesis using True by (simp add: sh_decode_def len)
  next
    case False
    have "take (unat ?size) (drop 3 (region buf hs ?n)) = slice buf (offset_headers + ?n + 3) (unat ?size)"
      if "?n + 3 + unat ?size \<le> ?h"
      using that region_take [of "unat ?size" hs "?n + 3"] by (simp add: region_drop add_ac)
    then show ?thesis
      using False assms(2) nh
      by (auto simp: sh_decode_def len Let_def region_take region_nth region_drop word_le_nat_alt add_ac)
  qed
  have len_v: "?n + 3 + unat ?size \<le> ?h \<Longrightarrow>
      length (slice buf (offset_headers + ?n + 3) (unat ?size)) = unat ?size"
    using assms(2) by simp
  have wrap: "?n + 3 + unat ?size \<le> ?h \<Longrightarrow> unat (count + 3 + ?size) = ?n + 3 + unat ?size"
    using h by (simp add: u16_add_no_wrap)
  have L: "?L \<longleftrightarrow> ?n + 3 + unat ?size \<le> ?h \<and> ?size \<le> MAX_HEADER_SIZE \<and> ?ty \<noteq> SH_Unknown \<and>
      unat c' = ?n + 3 + unat ?size \<and>
      s = \<lparr>sub_size = ?size, sub_type = ?ty, sub_value = (offset_headers + ?n + 3, unat ?size)\<rparr>"
    using wrap by (auto simp: parse_sub_header_Inr [OF assms] Let_def word_unat_eq_iff)
  show ?thesis
  proof (cases "?n + 3 + unat ?size \<le> ?h \<and> ?size \<le> MAX_HEADER_SIZE \<and> ?ty \<noteq> SH_Unknown")
    case True
    then show ?thesis unfolding L dec using len_v by (auto simp add: of_nat_unat)
  next
    case False
    then show ?thesis unfolding L dec by auto
  qed
qed

lemma parse_sub_header_fails:
  assumes "count < hs" and "offset_headers + unat hs \<le> length buf"
    and "parse_sub_header e buf hs count = Inl x"
  shows "sh_decode e (region buf hs (unat count)) = None"
proof (rule ccontr)
  let ?bs = "region buf hs (unat count)"
  assume "sh_decode e ?bs \<noteq> None"
  then obtain t v rest where d: "sh_decode e ?bs = Some ((t, v), rest)" by auto
  from sh_decode_sound [OF d] have b: "?bs = sh_encode e (t, v) @ rest" by simp
  let ?c = "count + of_nat (3 + length v)"
  have "length ?bs = unat hs - unat count"
    using assms(1,2) by (simp add: length_region word_less_nat_alt)
  with b have "unat count + 3 + length v \<le> unat hs" by simp
  then have u: "unat ?c = unat count + 3 + length v"
    using unat_u16_less [of hs] by (subst u16_add_no_wrap) (simp_all only: unat_of_nat_u16)
  have "rest = region buf hs (unat ?c)"
    using arg_cong [OF b, of "drop (3 + length v)"] by (simp only: region_drop u) (simp add: add_ac)
  with d u parse_sub_header_decodes [OF assms(1,2), of e ?c] assms(3) show False by auto
qed

lemma parse_sub_headers_loop_decodes:
  assumes "offset_headers + unat hs \<le> length buf" and "count \<le> hs"
  shows "parse_sub_headers_loop e buf hs count acc = Inr (c, subs) \<longleftrightarrow>
    c = hs \<and> (\<exists>items. decode_all (sh_decode e) (region buf hs (unat count)) = (items, []) \<and>
       subs = acc @ locate (offset_headers + unat count) items)"
  using assms
proof (induction e buf hs count acc rule: parse_sub_headers_loop.induct)
  case (1 e buf hs count acc)
  let ?bs = "region buf hs (unat count)"
  show ?case
  proof (cases "count < hs")
    case False
    with 1 have "?bs = []" and "count = hs" by (simp_all add: region_def slice_def)
    moreover have "decode_all (sh_decode e) [] = ([], [])"
      by (rule sub_items.decode_all_None) (simp add: sh_decode_def)
    ultimately show ?thesis by (auto simp: parse_sub_headers_loop.simps [of e buf hs hs acc])
  next
    case True
    note step = parse_sub_header_decodes [OF True 1(2)]
    have ne: "?bs \<noteq> []" using True 1(2) length_region [of hs buf "unat count"]
      by (auto simp: word_less_nat_alt)
    show ?thesis
    proof (cases "parse_sub_header e buf hs count")
      case (Inl x)
      from parse_sub_header_fails [OF True 1(2) this] have "sh_decode e ?bs = None" .
      then show ?thesis using True Inl ne
        by (simp add: parse_sub_headers_loop.simps [of e buf hs count acc] sub_items.decode_all_None)
    next
      case (Inr p)
      then obtain c' s where p: "parse_sub_header e buf hs count = Inr (c', s)" by (cases p) auto
      from p step obtain t v where d: "sh_decode e ?bs = Some ((t, v), region buf hs (unat c'))"
        and c': "unat c' = unat count + 3 + length v"
        and s: "s = \<lparr>sub_size = of_nat (length v), sub_type = t,
            sub_value = (offset_headers + unat count + 3, length v)\<rparr>" by auto
      have le: "c' \<le> hs" using parse_sub_header_progress [OF True p] by simp
      have "decode_all (sh_decode e) ?bs = apfst ((#) (t, v)) (decode_all (sh_decode e) (region buf hs (unat c')))"
        using sh_decode_sound [OF d] sub_items.decode_all_enc by metis
      then show ?thesis
        using "1.IH" [OF True p refl 1(2) le] True p s c'
        by (auto simp: parse_sub_headers_loop.simps [of e buf hs count acc] apfst_def add_ac
            map_prod_def split: prod.splits)
    qed
  qed
qed

lemma parse_sub_headers_decodes:
  assumes "offset_headers + unat hs \<le> length buf"
  shows "parse_sub_headers e buf hs = Inr subs \<longleftrightarrow>
    (\<exists>items. decode_all (sh_decode e) (slice buf offset_headers (unat hs)) = (items, []) \<and>
       subs = locate offset_headers items)"
  using parse_sub_headers_loop_decodes [OF assms, of 0 e "[]"]
  by (auto simp: parse_sub_headers_def rbind_eq_Inr region_def)


subsection \<open>The wire image of an outgoing packet\<close>

definition wire_fields :: "packet_version \<Rightarrow> packet_type \<Rightarrow> u32 \<Rightarrow> nat \<Rightarrow> nat \<Rightarrow> bytes" where
  "wire_fields ver ty seq hlen plen =
     be_bytes 4 (14 + hlen + plen) @ [packet_version_to_byte ver, packet_type_to_byte ty] @
     be_bytes 2 hlen @ be_bytes 2 0 @ be_bytes 4 (unat seq)"

lemma length_wire_fields [simp]: "length (wire_fields ver ty seq h p) = 14"
  by (simp add: wire_fields_def)

lemma write_fields:
  assumes "length b4 = 4" and "length h2 = 2" and "length f2 = 2" and "length s4 = 4"
  shows "rbind (mem_write (replicate offset_headers 0) offset_packet_size b4) (\<lambda>m1.
      rbind (mem_write m1 offset_packet_type [t]) (\<lambda>m2.
      rbind (mem_write m2 offset_version [v]) (\<lambda>m3.
      rbind (mem_write m3 offset_header_size h2) (\<lambda>m4.
      rbind (mem_write m4 offset_flags f2) (\<lambda>m5.
      rbind (mem_write m5 offset_sequence_id s4) k))))) = k (b4 @ [v, t] @ h2 @ f2 @ s4)"
proof -
  have w1: "mem_write (replicate 14 0) 0 b4 = Inr (b4 @ replicate 10 0)"
    using assms by simp
  have w2: "mem_write (b4 @ replicate 10 0) 5 [t] = Inr (b4 @ [0, t] @ replicate 8 0)"
    using assms by (simp add: eval_nat_numeral)
  have w3: "mem_write (b4 @ [0, t] @ replicate 8 0) 4 [v] = Inr (b4 @ [v, t] @ replicate 8 0)"
    using assms by (simp add: eval_nat_numeral)
  have w4: "mem_write (b4 @ [v, t] @ replicate 8 0) 6 h2 = Inr (b4 @ [v, t] @ h2 @ replicate 6 0)"
    using assms by simp
  have w5: "mem_write (b4 @ [v, t] @ h2 @ replicate 6 0) 8 f2 = Inr (b4 @ [v, t] @ h2 @ f2 @ replicate 4 0)"
    using assms by simp
  have w6: "mem_write (b4 @ [v, t] @ h2 @ f2 @ replicate 4 0) 10 s4 = Inr (b4 @ [v, t] @ h2 @ f2 @ s4)"
    using assms by simp
  show ?thesis unfolding packet_offsets w1 rbind_Inr w2 w3 w4 w5 w6 by (rule refl)
qed

lemma create_Inr_iff:
  "create e ver ty fl seq hdrs payload = Inr out \<longleftrightarrow>
     ver \<noteq> V_Unknown \<and> ty \<noteq> PT_Unknown \<and> length hdrs \<le> 1024 \<and> length payload \<le> 1048576 \<and>
     out = \<lparr>out_fields = wire_fields ver ty seq (length hdrs) (length payload),
            out_headers = hdrs, out_payload = payload\<rparr>"
proof (cases "length hdrs \<le> 1024 \<and> length payload \<le> 1048576")
  case True
  let ?h = "of_nat (length hdrs) :: u16" and ?p = "of_nat (length payload) :: u32"
  have h: "unat ?h = length hdrs" using True by (simp add: unat_of_nat_u16)
  have p: "unat ?p = length payload" using True by (simp add: unat_of_nat_u32)
  have "unat ((of_nat offset_headers :: u64) + ucast ?h + ucast ?p) = 14 + length hdrs + length payload"
    using True by (simp only: unat_word_ariths unat_ucast_u16_u64 unat_ucast_u32_u64 h p packet_offsets) simp
  then have size: "unat (ucast ((of_nat offset_headers :: u64) + ucast ?h + ucast ?p) :: u32)
      = 14 + length hdrs + length payload"
    using True by (subst unat_ucast_u64_u32) simp_all
  have fl: "fl = PF_None" by (cases fl)
  have z: "unat (0 :: u16) = 0" by simp
  have small: "\<not> unat MAX_HEADER_SIZE < length hdrs" "\<not> unat MAX_PAYLOAD_SIZE < length payload"
    using True by simp_all
  show ?thesis
    unfolding create_def Let_def packet_flags_to_bytes_def
      write_fields [OF length_store_u32 length_store_u16 length_store_u16 length_store_u32]
      store_htonl store_htons size h z wire_fields_def [symmetric]
    using True fl small by auto
next
  case False
  then show ?thesis by (auto simp: create_def Let_def)
qed


subsection \<open>The byte strings the constructor accepts\<close>

definition header_len :: "bytes \<Rightarrow> nat" where
  "header_len buf = be_val (slice buf 6 2)"

definition header_items :: "endian \<Rightarrow> bytes \<Rightarrow> item list" where
  "header_items e buf = fst (decode_all (sh_decode e) (slice buf 14 (header_len buf)))"

definition acceptable :: "endian \<Rightarrow> bytes \<Rightarrow> bool" where
  "acceptable e buf \<longleftrightarrow>
     14 \<le> length buf \<and> buf ! 4 = 1 \<and> buf ! 5 \<in> {1, 2, 3} \<and>
     header_len buf \<le> 1024 \<and> 14 + header_len buf \<le> length buf \<and>
     length buf - (14 + header_len buf) \<le> 1048576 \<and>
     snd (decode_all (sh_decode e) (slice buf 14 (header_len buf))) = []"

definition packet_of :: "endian \<Rightarrow> bytes \<Rightarrow> packet" where
  "packet_of e buf =
     \<lparr>pk_packet_size = of_nat (length buf), pk_version = V_v1,
      pk_packet_type = packet_type_from_byte (buf ! 5),
      pk_header_size = of_nat (header_len buf), pk_flags = PF_None,
      pk_sequence_id = of_nat (be_val (slice buf 10 4)),
      pk_offset_payload = 14 + header_len buf,
      pk_payload_size = of_nat (length buf - (14 + header_len buf)),
      pk_buffer = buf, pk_headers = locate 14 (header_items e buf)\<rparr>"

lemma version_byte_iff: "packet_version_from_byte b = V_Unknown \<longleftrightarrow> b \<noteq> 1"
  by (simp add: packet_version_from_byte_def)

lemma type_byte_iff: "packet_type_from_byte b = PT_Unknown \<longleftrightarrow> b \<notin> {1, 2, 3}"
  by (auto simp: packet_type_from_byte_def)

text \<open>The fixed fields never throw a read error once the buffer holds fourteen bytes.\<close>

lemma packet_from_bytes_fields:
  assumes "14 \<le> length buf" and "length buf < 4294967296"
  shows "packet_from_bytes e buf =
    (if buf ! 4 \<noteq> 1 then Inl (Invalid_argument ''Version Error'')
     else if buf ! 5 \<notin> {1, 2, 3} then Inl (Invalid_argument ''packet type error'')
     else if 1024 < header_len buf \<or> length buf < header_len buf
     then Inl (Invalid_argument ''Header size error'')
     else if length buf < 14 + header_len buf then Inl (Invalid_argument ''Offset payload error'')
     else if 1048576 < length buf - (14 + header_len buf) then Inl (Invalid_argument ''Payload size error'')
     else rbind (parse_sub_headers e buf (of_nat (header_len buf)))
       (\<lambda>subs. Inr ((packet_of e buf)\<lparr>pk_headers := subs\<rparr>)))"
proof -
  have size: "unat (of_nat (length buf) :: u32) = length buf" using assms(2) by (rule unat_of_nat_u32)
  have hl: "header_len buf < 65536" using load_less [of Big "slice buf 6 2"] assms(1)
    by (simp add: header_len_def)
  have hs: "ntohs e (load_u16 e (slice buf 6 2)) = of_nat (header_len buf)"
    using assms(1) by (simp add: ntohs_load header_len_def)
  have sq: "ntohl e (load_u32 e (slice buf 10 4)) = of_nat (be_val (slice buf 10 4))"
    using assms(1) by (simp add: ntohl_load)
  have u: "unat (of_nat (header_len buf) :: u16) = header_len buf" using hl by (rule unat_of_nat_u16)
  have big: "(of_nat (header_len buf) :: u16) > MAX_HEADER_SIZE \<longleftrightarrow> 1024 < header_len buf"
    by (simp only: word_less_nat_alt u unat_MAX_HEADER_SIZE)
  have "unat (of_nat (length buf - (14 + header_len buf)) :: u32) = length buf - (14 + header_len buf)"
    using assms(2) by (intro unat_of_nat_u32) simp
  then have pay: "(of_nat (length buf - (14 + header_len buf)) :: u32) > MAX_PAYLOAD_SIZE \<longleftrightarrow>
      1048576 < length buf - (14 + header_len buf)"
    by (simp only: word_less_nat_alt unat_MAX_PAYLOAD_SIZE)
  have reads: "mem_byte buf 4 = Inr (buf ! 4)" "mem_byte buf 5 = Inr (buf ! 5)"
    "mem_read buf 6 2 = Inr (slice buf 6 2)" "mem_read buf 8 2 = Inr (slice buf 8 2)"
    "mem_read buf 10 4 = Inr (slice buf 10 4)" using assms(1) by simp_all
  have v1: "buf ! 4 = 1 \<Longrightarrow> packet_version_from_byte (buf ! 4) = V_v1"
    by (simp add: packet_version_from_byte_def)
  show ?thesis
    unfolding packet_from_bytes_def Let_def packet_offsets reads rbind_Inr hs sq size u big pay
      version_byte_iff type_byte_iff packet_flags_from_bytes_def packet_of_def
    using assms(1) v1 by simp
qed

lemma packet_from_bytes_short:
  "length buf < 14 \<Longrightarrow> packet_from_bytes e buf = Inl (Invalid_argument ''Packet size error'')"
  by (simp add: packet_from_bytes_def Let_def unat_of_nat_u32 packet_offsets)

lemma packet_from_bytes_Inr_iff:
  assumes "length buf < 4294967296"
  shows "packet_from_bytes e buf = Inr p \<longleftrightarrow> acceptable e buf \<and> p = packet_of e buf"
proof (cases "14 \<le> length buf")
  case True
  let ?hl = "header_len buf"
  have u: "unat (of_nat ?hl :: u16) = ?hl"
    using load_less [of Big "slice buf 6 2"] True by (intro unat_of_nat_u16) (simp add: header_len_def)
  have parse: "parse_sub_headers e buf (of_nat ?hl) = Inr subs \<longleftrightarrow>
      snd (decode_all (sh_decode e) (slice buf 14 ?hl)) = [] \<and> subs = locate 14 (header_items e buf)"
    if "14 + ?hl \<le> length buf" for subs
  proof -
    obtain xs l where d: "decode_all (sh_decode e) (slice buf 14 ?hl) = (xs, l)"
      by (cases "decode_all (sh_decode e) (slice buf 14 ?hl)")
    have "14 + unat (of_nat ?hl :: u16) \<le> length buf" using that u by simp
    from parse_sub_headers_decodes [unfolded packet_offsets, OF this, of e subs] show ?thesis
      unfolding u d header_items_def by auto
  qed
  have upd: "(packet_of e buf)\<lparr>pk_headers := locate 14 (header_items e buf)\<rparr> = packet_of e buf"
    by (simp add: packet_of_def)
  show ?thesis
    unfolding packet_from_bytes_fields [OF True assms] acceptable_def
    using True parse upd by (auto simp: rbind_eq_Inr)
next
  case False
  then show ?thesis by (simp add: packet_from_bytes_short acceptable_def)
qed


text \<open>Evaluation of concrete packets.\<close>

lemmas packet_eval =
  acceptable_def header_len_def header_items_def packet_of_def slice_def sh_decode_def load_u16_def
  load_u32_def load_def sub_header_from_byte_def packet_type_from_byte_def packet_version_from_byte_def
  MAX_HEADER_SIZE_def decode_all.simps

end
