(* ===== verification/Packet_Props.thy ===== *)
theory Packet_Props
  imports Packet_Spec
begin

section \<open>Properties of packets\<close>

text \<open>
  Memory safety of the parser, exactness of the sub-header table it builds, the round trip with
  \<open>create\<close>, and the values the getters return.
\<close>

definition items_of :: "packet \<Rightarrow> item list" where
  "items_of p = map (\<lambda>s. (sub_type s, span_bytes p (sub_value s))) (pk_headers p)"

lemma length_sh_encode [simp]: "length (sh_encode e (t, v)) = 3 + length v"
  by simp

lemma locate_items:
  assumes "buf = pre @ concat (map (sh_encode e) items) @ post"
  shows "map (\<lambda>s. (sub_type s, slice buf (fst (sub_value s)) (snd (sub_value s)))) (locate (length pre) items) = items"
  using assms
proof (induction items arbitrary: pre)
  case (Cons x items)
  obtain t v where x: "x = (t, v)" by (cases x)
  let ?pre = "pre @ sh_encode e (t, v)"
  have b: "buf = ?pre @ concat (map (sh_encode e) items) @ post" using Cons.prems x by simp
  have len: "length ?pre = length pre + 3 + length v" by simp
  from Cons.IH [OF b] have "map (\<lambda>s. (sub_type s, slice buf (fst (sub_value s)) (snd (sub_value s))))
      (locate (length pre + 3 + length v) items) = items" unfolding len .
  moreover have "slice buf (length pre + 3) (length v) = v"
  proof -
    have "buf = (pre @ store_u16 e (of_nat (length v)) @ [sub_header_to_byte t]) @ (v @ concat (map (sh_encode e) items) @ post)"
      using Cons.prems x by simp
    moreover have "length (pre @ store_u16 e (of_nat (length v)) @ [sub_header_to_byte t]) = length pre + 3" by simp
    ultimately show ?thesis by (metis slice_append append_eq_conv_conj)
  qed
  ultimately show ?case by (simp add: x)
qed simp

lemma locate_bounds:
  "s \<in> set (locate off items) \<Longrightarrow> off + 3 \<le> fst (sub_value s) \<and>
     fst (sub_value s) + snd (sub_value s) \<le> off + length (concat (map (sh_encode e) items))"
proof (induction items arbitrary: off)
  case (Cons x items)
  obtain t v where x: "x = (t, v)" by (cases x)
  show ?case
  proof (cases "s \<in> set (locate (off + 3 + length v) items)")
    case True
    from Cons.IH [OF this] show ?thesis by (simp add: x)
  next
    case False
    with Cons.prems show ?thesis by (simp add: x)
  qed
qed simp

text \<open>What acceptance says about the header region.\<close>

lemma acceptable_region:
  assumes "acceptable e buf"
  shows "slice buf 14 (header_len buf) = concat (map (sh_encode e) (header_items e buf))"
    and "\<forall>x \<in> set (header_items e buf). sh_valid x"
proof -
  have "decode_all (sh_decode e) (slice buf 14 (header_len buf)) = (header_items e buf, [])"
    using assms by (simp add: acceptable_def header_items_def prod_eq_iff)
  from sub_items.decode_all_sound [OF this]
  show "slice buf 14 (header_len buf) = concat (map (sh_encode e) (header_items e buf))"
    and "\<forall>x \<in> set (header_items e buf). sh_valid x" by auto
qed

lemma buffer_parts:
  "14 + h \<le> length buf \<Longrightarrow> buf = take 14 buf @ slice buf 14 h @ drop (14 + h) buf"
  using append_take_drop_id [of 14 buf] append_take_drop_id [of h "drop 14 buf"]
  by (simp add: slice_def add.commute)

lemma items_of_packet_of:
  assumes "acceptable e buf"
  shows "items_of (packet_of e buf) = header_items e buf"
proof -
  have l: "14 + header_len buf \<le> length buf" using assms by (simp add: acceptable_def)
  then have "length (take 14 buf) = 14" by simp
  moreover have "buf = take 14 buf @ concat (map (sh_encode e) (header_items e buf)) @ drop (14 + header_len buf) buf"
    using buffer_parts [OF l] acceptable_region(1) [OF assms] by simp
  from locate_items [OF this] have "map (\<lambda>s. (sub_type s, slice buf (fst (sub_value s)) (snd (sub_value s))))
      (locate 14 (header_items e buf)) = header_items e buf" using calculation by simp
  then show ?thesis by (simp add: items_of_def packet_of_def span_bytes_def)
qed

lemma parse_sub_header_exn: 
  "parse_sub_header e buf hs count = Inl x \<Longrightarrow> count < hs \<Longrightarrow> offset_headers + unat hs \<le> length buf \<Longrightarrow>
     \<exists>m. x = Invalid_argument m"
proof -
  assume a: "parse_sub_header e buf hs count = Inl x" "count < hs" "offset_headers + unat hs \<le> length buf"
  let ?n = "unat count" and ?h = "unat hs"
  have h: "?h < 65536" by (rule unat_u16_less)
  have nh: "?n < ?h" using a(2) by (simp add: word_less_nat_alt)
  have two: "int_to_size (uint hs - uint count) < 2 \<longleftrightarrow> ?h - ?n < 2"
    using int_to_size_less [of count hs 2] a(2) by simp
  have rd: "\<not> ?h - ?n < 2 \<Longrightarrow> mem_read buf (offset_headers + ?n) 2 = Inr (slice buf (offset_headers + ?n) 2)"
    using a(3) by simp
  have rdb: "mem_byte buf (offset_headers + unat (count + 2)) = Inr (buf ! (offset_headers + unat (count + 2)))"
    if "\<not> ?h - ?n < 2" "\<not> int_to_size (uint hs - uint (count + 2)) < 1"
  proof -
    have u: "unat (count + 2) = ?n + 2" using that h by (subst u16_add_no_wrap) auto
    moreover have "count + 2 \<le> hs" using that(1) u by (auto simp: word_le_nat_alt)
    from int_to_size_less [OF this, of 1] have "?n + 2 < ?h" using that u by simp
    ultimately show ?thesis using a(3) by simp
  qed
  show ?thesis
    using a(1) unfolding parse_sub_header_def two Let_def
    by (auto simp: rd rdb split: if_splits)
qed

lemma parse_sub_headers_loop_exn:
  "parse_sub_headers_loop e buf hs count acc = Inl x \<Longrightarrow> offset_headers + unat hs \<le> length buf \<Longrightarrow>
     \<exists>m. x = Invalid_argument m"
proof (induction e buf hs count acc rule: parse_sub_headers_loop.induct)
  case (1 e buf hs count acc)
  show ?case
  proof (cases "count < hs")
    case True
    show ?thesis
    proof (cases "parse_sub_header e buf hs count")
      case (Inl y)
      then show ?thesis using 1 True parse_sub_header_exn [OF Inl True]
        by (simp add: parse_sub_headers_loop.simps [of e buf hs count acc])
    next
      case (Inr p)
      obtain c' s where p: "p = (c', s)" by (cases p)
      show ?thesis using 1(1) [OF True Inr p [symmetric]] 1(2,3) True Inr p
        by (simp add: parse_sub_headers_loop.simps [of e buf hs count acc])
    qed
  next
    case False
    then show ?thesis using 1 by (simp add: parse_sub_headers_loop.simps [of e buf hs count acc])
  qed
qed


lemma parse_sub_headers_exn:
  "parse_sub_headers e buf hs = Inl x \<Longrightarrow> offset_headers + unat hs \<le> length buf \<Longrightarrow>
     \<exists>m. x = Invalid_argument m"
  using parse_sub_headers_loop_exn [of e buf hs 0 "[]" x]
  by (auto simp: parse_sub_headers_def rbind_eq_Inl split: if_splits)

lemma parse_sub_headers_bounds:
  assumes "parse_sub_headers e buf hs = Inr subs" and "offset_headers + unat hs \<le> length buf"
  shows "list_all (\<lambda>s. 14 \<le> fst (sub_value s) \<and>
           fst (sub_value s) + snd (sub_value s) \<le> 14 + unat hs) subs"
proof -
  obtain items where d: "decode_all (sh_decode e) (slice buf offset_headers (unat hs)) = (items, [])"
    and subs: "subs = locate offset_headers items"
    using parse_sub_headers_decodes [OF assms(2)] assms(1) by blast
  have "length (concat (map (sh_encode e) items)) = unat hs"
    using sub_items.decode_all_sound [OF d] assms(2) length_slice [of offset_headers "unat hs" buf] by simp
  then show ?thesis using locate_bounds [of _ offset_headers items e] subs
    by (auto simp: list_all_iff packet_offsets dest!: locate_bounds [where e = e])
qed

subsection \<open>The constructor\<close>

text \<open>C4: The constructor of Packet accepts exactly the well-formed packets: for a buffer below
  4 GiB it returns a packet if and only if the version, type, header length, payload length and
  sub-header region satisfy \<open>acceptable\<close>, and the packet it returns is \<open>packet_of\<close> of the
  bytes, with network-order fields whatever the byte order of the host.\<close>

theorem packet_accepts_iff:
  assumes "length buf < 2 ^ 32"
  shows "packet_from_bytes e buf = Inr p \<longleftrightarrow> acceptable e buf \<and> p = packet_of e buf"
  using assms packet_from_bytes_Inr_iff by simp

theorem packet_accepts_iff_witness:
  "\<exists>p. packet_from_bytes Little [0,0,0,20, 1, 1, 0,4, 0,0, 0,0,0,7, 1,0,10,65, 72,105] = Inr p \<and>
     pk_packet_type p = PT_Text \<and> pk_sequence_id p = 7"
proof -
  let ?b = "[0,0,0,20, 1, 1, 0,4, 0,0, 0,0,0,7, 1,0,10,65, 72,105] :: bytes"
  have "acceptable Little ?b" by (simp add: packet_eval)
  then have "packet_from_bytes Little ?b = Inr (packet_of Little ?b)"
    by (subst packet_accepts_iff) simp_all
  moreover have "pk_packet_type (packet_of Little ?b) = PT_Text" by (simp add: packet_eval)
  moreover have "pk_sequence_id (packet_of Little ?b) = 7" by (simp add: packet_eval)
  ultimately show ?thesis by blast
qed

text \<open>What the constructor can do with any bytes.\<close>

definition parse_outcome_ok :: "bytes \<Rightarrow> packet res \<Rightarrow> bool" where
  "parse_outcome_ok buf r \<longleftrightarrow> (case r of
     Inl x \<Rightarrow> (\<exists>msg. x = Invalid_argument msg)
   | Inr p \<Rightarrow> pk_buffer p = buf \<and>
       list_all (\<lambda>s. 14 \<le> fst (sub_value s) \<and>
         fst (sub_value s) + snd (sub_value s) \<le> 14 + unat (pk_header_size p)) (pk_headers p) \<and>
       (\<exists>bs. payload_bytes p = Inr bs))"

lemma packet_from_bytes_outcome: "parse_outcome_ok buf (packet_from_bytes e buf)"
proof -
  let ?N = "unat (of_nat (length buf) :: u32)"
  let ?hs = "ntohs e (load_u16 e (slice buf 6 2))"
  have N: "?N \<le> length buf" by (simp add: unat_of_nat)
  show ?thesis
  proof (cases "14 + unat ?hs \<le> ?N")
    case False
    then show ?thesis
      using N by (auto simp: parse_outcome_ok_def packet_from_bytes_def Let_def packet_offsets)
  next
    case True
    then have l: "offset_headers + unat ?hs \<le> length buf" using N by (simp add: packet_offsets)
    have "case parse_sub_headers e buf ?hs of
        Inl x \<Rightarrow> \<exists>msg. x = Invalid_argument msg
      | Inr subs \<Rightarrow> list_all (\<lambda>s. 14 \<le> fst (sub_value s) \<and>
          fst (sub_value s) + snd (sub_value s) \<le> 14 + unat ?hs) subs"
      using parse_sub_headers_exn [OF _ l] parse_sub_headers_bounds [OF _ l]
      by (auto split: sum.splits)
    moreover have "unat (of_nat (?N - (14 + unat ?hs)) :: u32) \<le> length buf - (14 + unat ?hs)"
      using N by (simp add: unat_of_nat) 
    ultimately show ?thesis
      using N True
      by (auto simp: parse_outcome_ok_def packet_from_bytes_def Let_def packet_offsets payload_bytes_def payload_ptr_def
          split: sum.splits)
  qed
qed

lemma packet_from_bytes_exn: "packet_from_bytes e buf = Inl x \<Longrightarrow> \<exists>msg. x = Invalid_argument msg"
  using packet_from_bytes_outcome [of buf e] by (simp add: parse_outcome_ok_def)

text \<open>C11: Parsing is memory safe: whatever the bytes, the constructor of Packet never reads outside
  its buffer; it either throws \<open>invalid_argument\<close> or returns a packet that owns exactly the bytes
  given, all of whose sub-header spans lie inside the header region, and whose payload pointer can
  be read for the announced payload size.\<close>

theorem packet_parse_memory_safe:
  "case packet_from_bytes e buf of
     Inl x \<Rightarrow> (\<exists>msg. x = Invalid_argument msg)
   | Inr p \<Rightarrow> pk_buffer p = buf \<and>
       list_all (\<lambda>s. 14 \<le> fst (sub_value s) \<and>
         fst (sub_value s) + snd (sub_value s) \<le> 14 + unat (pk_header_size p)) (pk_headers p) \<and>
       (\<exists>bs. payload_bytes p = Inr bs)"
  using packet_from_bytes_outcome [of buf e] unfolding parse_outcome_ok_def .

text \<open>C31: The sub-header table is exact: the sub-headers of a parsed packet, re-encoded in order, are
  the bytes of the header region, with nothing skipped, nothing left over and no two overlapping,
  and each has a type with a wire byte and a value of at most 1024 bytes.\<close>

theorem sub_headers_tile_region:
  assumes "length buf < 2 ^ 32" and "packet_from_bytes e buf = Inr p"
  shows "concat (map (sh_encode e) (items_of p)) = slice buf 14 (unat (pk_header_size p)) \<and>
     list_all sh_valid (items_of p)"
proof -
  have a: "acceptable e buf" and p: "p = packet_of e buf"
    using assms packet_from_bytes_Inr_iff [of buf e p] by simp_all
  have "unat (pk_header_size p) = header_len buf"
    using a by (simp add: p packet_of_def acceptable_def unat_of_nat_u16)
  then show ?thesis
    using acceptable_region [OF a] by (simp add: p items_of_packet_of [OF a] list_all_iff)
qed

theorem sub_headers_tile_region_witness:
  "\<exists>p. packet_from_bytes Little [0,0,0,20, 1, 1, 0,4, 0,0, 0,0,0,7, 1,0,10,65, 72,105] = Inr p \<and>
     concat (map (sh_encode Little) (items_of p)) = [1,0,10,65]"
proof -
  let ?b = "[0,0,0,20, 1, 1, 0,4, 0,0, 0,0,0,7, 1,0,10,65, 72,105] :: bytes"
  have "acceptable Little ?b" by (simp add: packet_eval)
  then have "packet_from_bytes Little ?b = Inr (packet_of Little ?b)"
    by (simp add: packet_from_bytes_Inr_iff)
  moreover from sub_headers_tile_region [OF _ this]
  have "concat (map (sh_encode Little) (items_of (packet_of Little ?b))) = [1,0,10,65]"
    by (simp add: packet_eval)
  ultimately show ?thesis by blast
qed

subsection \<open>\<open>create\<close> and the round trip\<close>

text \<open>What create puts on the wire: it succeeds exactly for a known version and type, at most
  1024 header bytes and at most 1 MiB of payload; the three buffers then hold fourteen field
  bytes, the headers and the payload, and the length field holds the total number of bytes in
  network order, whatever the byte order of the host.\<close>

lemma create_wire_image:
  "create e ver ty fl seq hdrs payload = Inr out \<longleftrightarrow>
     ver \<noteq> V_Unknown \<and> ty \<noteq> PT_Unknown \<and> length hdrs \<le> 1024 \<and> length payload \<le> 1048576 \<and>
     concat (buffers out) =
       be_bytes 4 (14 + length hdrs + length payload) @
       [packet_version_to_byte ver, packet_type_to_byte ty] @
       be_bytes 2 (length hdrs) @ [0, 0] @ be_bytes 4 (unat seq) @ hdrs @ payload \<and>
     out_headers out = hdrs \<and> out_payload out = payload"
proof -
  have z: "be_bytes 2 0 = [0, 0]" by (simp add: store_def numeral_2_eq_2)
  have w: "be_bytes 4 (14 + length hdrs + length payload) @
      [packet_version_to_byte ver, packet_type_to_byte ty] @
      be_bytes 2 (length hdrs) @ [0, 0] @ be_bytes 4 (unat seq) @ hdrs @ payload =
    wire_fields ver ty seq (length hdrs) (length payload) @ hdrs @ payload"
    unfolding wire_fields_def z by simp
  show ?thesis
    unfolding create_Inr_iff w by (cases out) (auto simp: buffers_def)
qed

lemma header_fields_of_wire:
  fixes hdrs payload :: bytes and ty :: packet_type and seq :: u32
  assumes "length hdrs \<le> 1024" and "length payload \<le> 1048576"
  defines "buf \<equiv> wire_fields V_v1 ty seq (length hdrs) (length payload) @ hdrs @ payload"
  shows "buf ! 4 = 1" and "buf ! 5 = packet_type_to_byte ty" and "header_len buf = length hdrs"
    and "be_val (slice buf 10 4) = unat seq"
proof -
  let ?n = "14 + length hdrs + length payload"
  have b: "buf = be_bytes 4 ?n @ [1, packet_type_to_byte ty] @ be_bytes 2 (length hdrs) @
      be_bytes 2 0 @ be_bytes 4 (unat seq) @ hdrs @ payload"
    by (simp add: buf_def wire_fields_def)
  show "buf ! 4 = 1" unfolding b using nth_append_length [of "be_bytes 4 ?n"] by simp
  show "buf ! 5 = packet_type_to_byte ty"
    unfolding b using nth_append_length [of "be_bytes 4 ?n @ [1]"] by simp
  have "slice buf 6 2 = be_bytes 2 (length hdrs)" unfolding b by (simp add: slice_def)
  then show "header_len buf = length hdrs" using assms(1) by (simp add: header_len_def load_store)
  have "slice buf 10 4 = be_bytes 4 (unat seq)" unfolding b by (simp add: slice_def)
  then show "be_val (slice buf 10 4) = unat seq" by (simp add: be_val_be_bytes_u32)
qed

text \<open>What \<open>create\<close> made of well-formed sub-headers parses.\<close>

lemma created_packet_parses:
  assumes "list_all sh_valid items" and "ty \<in> set wire_packet_types"
    and "create e' V_v1 ty PF_None seq (concat (map (sh_encode e) items)) payload = Inr out"
  obtains p where "packet_from_bytes e (concat (buffers out)) = Inr p"
    and "pk_version p = V_v1" and "pk_packet_type p = ty" and "pk_sequence_id p = seq"
    and "items_of p = items" and "payload_bytes p = Inr payload"
proof -
  let ?hdrs = "concat (map (sh_encode e) items)"
  let ?w = "wire_fields V_v1 ty seq (length ?hdrs) (length payload)"
  let ?buf = "?w @ ?hdrs @ payload"
  have l: "length ?hdrs \<le> 1024" "length payload \<le> 1048576" and out: "concat (buffers out) = ?buf"
    using assms(3) by (auto simp: create_Inr_iff buffers_def)
  note f = header_fields_of_wire [OF l, of ty seq]
  have ty: "packet_type_from_byte (packet_type_to_byte ty) = ty" "ty \<noteq> PT_Unknown"
    using assms(2) by (auto simp: packet_type_from_to wire_packet_types_def)
  have len: "length ?buf = 14 + length ?hdrs + length payload" by simp
  have "slice ?buf 14 (length ?hdrs) = ?hdrs" by (simp add: slice_def)
  moreover have "decode_all (sh_decode e) ?hdrs = (items, [])"
    using sub_items.decode_all_concat [where e = e and xs = items and left = "[]"] assms(1)
    by (simp add: list_all_iff sh_decode_def)
  ultimately have items: "decode_all (sh_decode e) (slice ?buf 14 (length ?hdrs)) = (items, [])"
    by simp
  have acc: "acceptable e ?buf"
    unfolding acceptable_def items f len
    using l ty type_byte_iff [of "packet_type_to_byte ty"] by simp
  have p: "packet_from_bytes e ?buf = Inr (packet_of e ?buf)"
    using acc l by (simp add: packet_from_bytes_Inr_iff)
  have "unat (of_nat (length payload) :: u32) = length payload" using l(2) by (simp add: unat_of_nat_u32)
  then have "payload_bytes (packet_of e ?buf) = Inr payload"
    using f by (simp add: payload_bytes_def payload_ptr_def packet_of_def slice_def)
  moreover have "items_of (packet_of e ?buf) = items"
    using items_of_packet_of [OF acc] by (simp only: header_items_def items f fst_conv)
  moreover have "pk_version (packet_of e ?buf) = V_v1 \<and> pk_packet_type (packet_of e ?buf) = ty \<and>
      pk_sequence_id (packet_of e ?buf) = seq"
    using f ty by (simp add: packet_of_def)
  ultimately show thesis using out p that [of "packet_of e ?buf"] by simp
qed

text \<open>C5: Round trip: a packet of type Text, File or Video made by create, on a host of any byte
  order, from well-formed sub-headers laid out in the order \<open>e\<close> and any payload up to the limits,
  is accepted by the constructor of Packet on a host of order \<open>e\<close>, which returns the same version,
  type, sequence number, sub-headers and payload.\<close>

theorem create_parse_roundtrip:
  assumes "list_all sh_valid items" and "hdrs = concat (map (sh_encode e) items)"
    and "length hdrs \<le> 1024" and "length payload \<le> 1048576" and "ty \<in> set wire_packet_types"
  shows "\<exists>out p. create e' V_v1 ty PF_None seq hdrs payload = Inr out \<and>
     packet_from_bytes e (concat (buffers out)) = Inr p \<and>
     pk_version p = V_v1 \<and> pk_packet_type p = ty \<and> pk_sequence_id p = seq \<and>
     items_of p = items \<and> payload_bytes p = Inr payload"
proof -
  have "ty \<noteq> PT_Unknown" using assms(5) by (auto simp: wire_packet_types_def)
  then obtain out where out: "create e' V_v1 ty PF_None seq hdrs payload = Inr out"
    using assms(3,4) by (simp add: create_Inr_iff)
  with created_packet_parses [OF assms(1,5), of e' seq e payload out] show ?thesis
    unfolding assms(2) by metis
qed

theorem create_parse_roundtrip_witness:
  "\<exists>out p. create Big V_v1 PT_File PF_None 9 (concat (map (sh_encode Little) [(SH_UserId, [65, 66])])) [1, 2] = Inr out \<and>
     packet_from_bytes Little (concat (buffers out)) = Inr p \<and>
     pk_version p = V_v1 \<and> pk_packet_type p = PT_File \<and> pk_sequence_id p = 9 \<and>
     items_of p = [(SH_UserId, [65, 66])] \<and> payload_bytes p = Inr [1, 2]"
  by (rule create_parse_roundtrip) (simp_all add: wire_sub_header_types_def wire_packet_types_def)

text \<open>A type without a wire byte cannot be transmitted.\<close>

lemma untransmittable_types:
  assumes "ty \<in> {PT_Auth, PT_Account}" and "create e' V_v1 ty fl seq hdrs payload = Inr out"
  shows "packet_from_bytes e (concat (buffers out)) = Inl (Invalid_argument ''packet type error'')"
proof -
  let ?buf = "wire_fields V_v1 ty seq (length hdrs) (length payload) @ hdrs @ payload"
  have l: "length hdrs \<le> 1024" "length payload \<le> 1048576" and out: "concat (buffers out) = ?buf"
    using assms(2) by (auto simp: create_Inr_iff buffers_def)
  have "packet_type_to_byte ty = 0" using assms(1) by auto
  then have "?buf ! 4 = 1" "?buf ! 5 = 0" using header_fields_of_wire [OF l, of ty seq] by simp_all
  then show ?thesis using l by (simp add: out packet_from_bytes_fields)
qed

subsection \<open>What the getters return\<close>

lemma find_sub_map_of: "map_of (map (\<lambda>s. (sub_type s, f s)) ss) t = map_option f (find_sub ss t)"
  by (induction ss) auto

lemma find_sub_mem: "find_sub ss t = Some s \<Longrightarrow> s \<in> set ss \<and> sub_type s = t"
  by (induction ss) (auto split: if_splits)

lemma parsed_span_length:
  assumes "length buf < 2 ^ 32" and "packet_from_bytes e buf = Inr p" and "s \<in> set (pk_headers p)"
  shows "length (span_bytes p (sub_value s)) = snd (sub_value s)"
proof -
  have p: "p = packet_of e buf" "acceptable e buf"
    using assms(1,2) packet_from_bytes_Inr_iff [of buf e p] by simp_all
  have "fst (sub_value s) + snd (sub_value s) \<le> 14 + length (concat (map (sh_encode e) (header_items e buf)))"
    using locate_bounds [of s 14 _ e] assms(3) by (simp add: p(1) packet_of_def)
  also have "\<dots> \<le> length buf"
    using p(2) length_slice [of 14 "header_len buf" buf]
    by (simp add: acceptable_region(1) [OF p(2), symmetric] acceptable_def)
  finally show ?thesis by (simp add: span_bytes_def p(1) packet_of_def)
qed

text \<open>C39: The getters read the first sub-header of the type asked for: in every packet that the constructor
  made of less than 4 GiB, as a string, its value; as a byte, its value when it is one byte long; as
  a 32-bit integer, its value in network order when it is four bytes long; and nothing otherwise.\<close>

theorem sub_header_getters_first_match:
  assumes "length buf < 2 ^ 32" and "packet_from_bytes e buf = Inr p"
  shows "sub_eader_get_string p t = map_of (items_of p) t \<and>
     sub_header_get_uint8 p t =
       (case map_of (items_of p) t of Some v \<Rightarrow> if length v = 1 then Some (hd v) else None | None \<Rightarrow> None) \<and>
     sub_header_get_uint32 e p t =
       (case map_of (items_of p) t of
          Some v \<Rightarrow> if length v = 4 then Some (of_nat (be_val v)) else None | None \<Rightarrow> None)"
proof (cases "find_sub (pk_headers p) t")
  case None
  then show ?thesis
    by (simp add: sub_eader_get_string_def sub_header_get_uint8_def sub_header_get_uint32_def
        items_of_def find_sub_map_of)
next
  case (Some s)
  have "length (span_bytes p (sub_value s)) = snd (sub_value s)"
    using parsed_span_length [OF assms] find_sub_mem [OF Some] by blast
  with Some show ?thesis
    by (simp add: sub_eader_get_string_def sub_header_get_uint8_def sub_header_get_uint32_def
        items_of_def find_sub_map_of ntohl_load)
qed

theorem sub_header_getters_first_match_witness:
  "\<exists>p. packet_from_bytes Little [0,0,0,22, 1, 3, 0,8, 0,0, 0,0,0,7, 1,0,10,65, 1,0,10,66] = Inr p \<and>
     sub_header_get_uint8 p SH_SessionId = Some 65"
proof -
  let ?b = "[0,0,0,22, 1, 3, 0,8, 0,0, 0,0,0,7, 1,0,10,65, 1,0,10,66] :: bytes"
  let ?p = "packet_of Little ?b"
  have acc: "acceptable Little ?b" by (simp add: packet_eval)
  then have p: "packet_from_bytes Little ?b = Inr ?p"
    by (simp add: packet_from_bytes_Inr_iff)
  have "items_of ?p = [(SH_SessionId, [65]), (SH_SessionId, [66])]"
    using items_of_packet_of [OF acc] by (simp add: packet_eval)
  then have "sub_header_get_uint8 ?p SH_SessionId = Some 65"
    using sub_header_getters_first_match [OF _ p, of SH_SessionId] by simp
  with p show ?thesis by blast
qed

lemma parse_sub_header_wire:
  "parse_sub_header e buf hs count = Inr (c', s) \<Longrightarrow> sub_type s \<in> set wire_sub_header_types"
  by (auto simp: parse_sub_header_def Let_def rbind_eq_Inr split: if_splits
      dest: sub_header_from_byte_wire [OF refl])

lemma parse_sub_headers_loop_wire:
  "parse_sub_headers_loop e buf hs count acc = Inr (c, subs) \<Longrightarrow>
     \<forall>s \<in> set acc. sub_type s \<in> set wire_sub_header_types \<Longrightarrow>
     \<forall>s \<in> set subs. sub_type s \<in> set wire_sub_header_types"
proof (induction e buf hs count acc rule: parse_sub_headers_loop.induct)
  case (1 e buf hs count acc)
  then show ?case
    by (fastforce simp: parse_sub_headers_loop.simps [of e buf hs count acc]
        dest: parse_sub_header_wire split: if_splits sum.splits prod.splits)
qed

lemma received_wire_types:
  assumes "packet_from_bytes e buf = Inr p"
  shows "pk_packet_type p \<in> set wire_packet_types \<and>
    (\<forall>s \<in> set (pk_headers p). sub_type s \<in> set wire_sub_header_types)"
proof -
  obtain hs where "parse_sub_headers e buf hs = Inr (pk_headers p)"
    and ty: "pk_packet_type p \<in> set wire_packet_types"
    using assms by (auto simp: packet_from_bytes_def Let_def rbind_eq_Inr
        dest: packet_type_from_byte_wire [OF refl] split: if_splits)
  then have "\<forall>s \<in> set (pk_headers p). sub_type s \<in> set wire_sub_header_types"
    using parse_sub_headers_loop_wire [of e buf hs 0 "[]"]
    by (auto simp: parse_sub_headers_def rbind_eq_Inr split: if_splits)
  with ty show ?thesis by simp
qed

subsection \<open>The byte order of sub-header sizes\<close>

text \<open>The size of a sub-header is not in network order: one and the same packet is accepted on a
  big-endian host and rejected on a little-endian one, and the other way round, although every
  other field of both is read alike.\<close>

lemma sub_header_size_host_order:
  "\<exists>a b. (\<exists>p. packet_from_bytes Big a = Inr p) \<and>
       packet_from_bytes Little a = Inl (Invalid_argument ''Incomplete SubHeaderValue'') \<and>
       (\<exists>p. packet_from_bytes Little b = Inr p) \<and>
       packet_from_bytes Big b = Inl (Invalid_argument ''Incomplete SubHeaderValue'') \<and>
       (\<forall>e. header_len a = 4 \<and> header_len b = 4)"
proof -
  let ?a = "[0,0,0,18, 1, 1, 0,4, 0,0, 0,0,0,7, 0,1,10,65] :: bytes"
  let ?b = "[0,0,0,18, 1, 1, 0,4, 0,0, 0,0,0,7, 1,0,10,65] :: bytes"
  have acc: "acceptable Big ?a" "acceptable Little ?b" by (simp_all add: packet_eval)
  have fields: "header_len ?a = 4" "header_len ?b = 4" by (simp_all add: packet_eval)
  have "parse_sub_header Little ?a 4 0 = Inl (Invalid_argument ''Incomplete SubHeaderValue'')"
    "parse_sub_header Big ?b 4 0 = Inl (Invalid_argument ''Incomplete SubHeaderValue'')"
    by (simp_all add: parse_sub_header_def int_to_size_def packet_offsets mem_byte_def mem_read_def
        load_u16_def load_def MAX_HEADER_SIZE_def sub_header_from_byte_def)
  then have "parse_sub_headers Little ?a 4 = Inl (Invalid_argument ''Incomplete SubHeaderValue'')"
    "parse_sub_headers Big ?b 4 = Inl (Invalid_argument ''Incomplete SubHeaderValue'')"
    by (simp_all add: parse_sub_headers_def parse_sub_headers_loop.simps [of _ _ _ 0])
  then have rej: "packet_from_bytes Little ?a = Inl (Invalid_argument ''Incomplete SubHeaderValue'')"
    "packet_from_bytes Big ?b = Inl (Invalid_argument ''Incomplete SubHeaderValue'')"
    by (simp_all add: packet_from_bytes_fields fields)
  have "packet_from_bytes Big ?a = Inr (packet_of Big ?a)" "packet_from_bytes Little ?b = Inr (packet_of Little ?b)"
    using acc by (simp_all add: packet_from_bytes_Inr_iff)
  with rej fields show ?thesis by blast
qed

text \<open>What the accessors of a received packet say: the three sizes add up to the bytes received, the
  version is the only one there is, and flags are never set.\<close>

lemma accessors_of_received:
  assumes "packet_from_bytes e buf = Inr p" and "length buf < 4294967296"
  shows "unat (get_packet_size p) = length buf \<and> get_version p = V_v1 \<and>
    get_packet_type p = packet_type_from_byte (buf ! 5) \<and> get_flags p = PF_None \<and>
    unat (get_sequence_id p) = be_val (slice buf 10 4) \<and>
    14 + unat (get_header_size p) + unat (get_payload_size p) = length buf"
proof -
  have acc: "acceptable e buf" and p: "p = packet_of e buf"
    using packet_from_bytes_Inr_iff [OF assms(2)] assms(1) by simp_all
  have l: "14 + header_len buf \<le> length buf" "14 \<le> length buf" using acc by (simp_all add: acceptable_def)
  have "header_len buf < 65536" using load_less [of Big "slice buf 6 2"] l by (simp add: header_len_def)
  moreover have "be_val (slice buf 10 4) < 4294967296" using load_less [of Big "slice buf 10 4"] l by simp
  ultimately show ?thesis using l assms(2)
    by (simp add: p packet_of_def get_packet_size_def get_version_def get_packet_type_def get_header_size_def
        get_flags_def get_sequence_id_def get_payload_size_def unat_of_nat_u16 unat_of_nat_u32 del: of_nat_diff)
qed

end
