(* ===== verification/File_Stream.thy ===== *)
theory File_Stream
  imports Prelude
begin

section \<open>Reading a file in chunks\<close>

text \<open>
  \<open>Config::load\<close> and \<open>LanguageProvider::load_file_content\<close> read a file with the same loop:
  512 bytes at a time while \<^verbatim>\<open>read\<close> succeeds, then the \<^verbatim>\<open>gcount\<close> bytes of the last, short read. A
  read on a stream that failed before reads nothing. The stream is the state \<^verbatim>\<open>std::ifstream\<close> keeps: the bytes not read yet, whether the file ends
  there or cannot be read further, the flags and the buffer of the last read.
\<close>

record disk_file =
  file_data :: string
  file_broken :: bool

type_synonym file_system = "string \<Rightarrow> disk_file option"

record ifstream =
  is_rest :: string
  is_broken :: bool
  is_eof :: bool
  is_fail :: bool
  is_gcount :: nat
  is_buff :: string

definition ifstream_open :: "disk_file \<Rightarrow> ifstream" where
  "ifstream_open f = \<lparr>is_rest = file_data f, is_broken = file_broken f, is_eof = False,
     is_fail = False, is_gcount = 0, is_buff = replicate 512 (CHR 0x00)\<rparr>"

text \<open>\<^verbatim>\<open>istream::read\<close>: a full chunk, or what is left with the flags that say why it is short.\<close>

definition ifstream_read :: "nat \<Rightarrow> ifstream \<Rightarrow> ifstream" where
  "ifstream_read n s =
     (if is_fail s \<or> is_eof s then s\<lparr>is_gcount := 0, is_fail := True\<rparr>
      else if n \<le> length (is_rest s)
      then s\<lparr>is_rest := drop n (is_rest s), is_gcount := n,
             is_buff := take n (is_rest s) @ drop n (is_buff s)\<rparr>
      else s\<lparr>is_rest := [], is_gcount := length (is_rest s),
             is_buff := is_rest s @ drop (length (is_rest s)) (is_buff s),
             is_eof := \<not> is_broken s, is_fail := True\<rparr>)"

function read_loop :: "ifstream \<Rightarrow> string \<Rightarrow> ifstream \<times> string" where
  "read_loop s content =
     (let s' = ifstream_read 512 s in
      if \<not> is_fail s'
      then read_loop s' (content @ take 512 (is_buff s'))
      else (s', content))"
  by pat_completeness auto
termination
  by (relation "measure (\<lambda>(s, content). length (is_rest s))") (auto simp: ifstream_read_def split: if_splits)

declare read_loop.simps [simp del]

definition read_contents :: "disk_file \<Rightarrow> string option" where
  "read_contents f =
     (let (s, content) = read_loop (ifstream_open f) [];
          content = content @ take (is_gcount s) (is_buff s)
      in if \<not> is_eof s \<and> is_fail s then None else Some content)"

lemma read_loop_result:
  "\<not> is_fail s \<Longrightarrow> \<not> is_eof s \<Longrightarrow>
     (case read_loop s content of (s', c) \<Rightarrow>
        is_fail s' \<and> is_eof s' = (\<not> is_broken s) \<and>
        c @ take (is_gcount s') (is_buff s') = content @ is_rest s)"
proof (induction s content rule: read_loop.induct)
  case (1 s content)
  show ?case
  proof (cases "512 \<le> length (is_rest s)")
    case True
    let ?s = "ifstream_read 512 s"
    have ok: "\<not> is_fail ?s" "\<not> is_eof ?s" "is_broken ?s = is_broken s"
      "length (is_rest ?s) < length (is_rest s)"
      using True 1(2,3) by (auto simp: ifstream_read_def)
    have "take 512 (is_buff ?s) @ is_rest ?s = is_rest s"
      using True 1(2,3) by (simp add: ifstream_read_def)
    then show ?thesis
      using "1.IH" [OF refl _ ok(1,2)] ok
      by (simp add: read_loop.simps [of s content] Let_def split: prod.splits)
  next
    case False
    then show ?thesis using 1(2,3)
      by (simp add: read_loop.simps [of s content] Let_def ifstream_read_def)
  qed
qed

lemma read_contents_eq: "read_contents f = (if file_broken f then None else Some (file_data f))"
  using read_loop_result [of "ifstream_open f" "[]"]
  by (auto simp: read_contents_def ifstream_open_def split: prod.splits)

end
