(* ===== verification/Loops.thy ===== *)
theory Loops
  imports Packet_Props File_Stream "HOL-Library.While_Combinator"
begin

section \<open>The loops as the code writes them\<close>

text \<open>
  The two \<^verbatim>\<open>while\<close> loops of the program whose length depends on input, on the state they update:
  the one of \<open>Packet::parseSubHeaders\<close> and the one that reads a file. \<^const>\<open>while_option\<close> is
  undefined for a loop that does not end; here both end, after a bounded number of iterations,
  with the result of the recursive functions of the model.
\<close>

subsection \<open>Ending after so many iterations\<close>

definition ends_after :: "('s \<Rightarrow> bool) \<Rightarrow> ('s \<Rightarrow> 's) \<Rightarrow> 's \<Rightarrow> nat \<Rightarrow> 's \<Rightarrow> bool" where
  "ends_after guard body s k t \<longleftrightarrow>
     t = (body ^^ k) s \<and> \<not> guard t \<and> list_all (\<lambda>j. guard ((body ^^ j) s)) [0..<k]"

lemma ends_after_0: "\<not> guard s \<Longrightarrow> ends_after guard body s 0 s"
  by (simp add: ends_after_def)

lemma ends_after_Suc:
  assumes "guard s" and "ends_after guard body (body s) k t"
  shows "ends_after guard body s (Suc k) t"
proof -
  have "guard ((body ^^ j) s)" if "j < Suc k" for j
    using assms that by (cases j) (auto simp: ends_after_def list_all_iff funpow_swap1)
  then show ?thesis using assms by (auto simp: ends_after_def list_all_iff funpow_swap1)
qed

lemma ends_after_while: "ends_after guard body s k t \<Longrightarrow> while_option guard body s = Some t"
proof (induction k arbitrary: s)
  case 0
  then show ?case by (subst while_option_unfold) (auto simp: ends_after_def)
next
  case (Suc k)
  have all: "guard ((body ^^ j) s)" if "j < Suc k" for j
    using Suc.prems that by (auto simp: ends_after_def list_all_iff less_Suc_eq)
  have "guard s" using all [of 0] by simp
  moreover have "ends_after guard body (body s) k t"
    using Suc.prems all [of "Suc j" for j] by (auto simp: ends_after_def list_all_iff funpow_swap1)
  then have "while_option guard body (body s) = Some t" by (rule Suc.IH)
  ultimately show ?case by (subst while_option_unfold) simp
qed

subsection \<open>The loop over the sub-headers\<close>

type_synonym header_state = "u16 \<times> sub_header list \<times> cpp_exn option"

text \<open>A throw leaves the loop: the third component is the exception.\<close>

definition header_guard :: "u16 \<Rightarrow> header_state \<Rightarrow> bool" where
  "header_guard hs = (\<lambda>(count, acc, thrown). thrown = None \<and> count < hs)"

definition header_body :: "endian \<Rightarrow> bytes \<Rightarrow> u16 \<Rightarrow> header_state \<Rightarrow> header_state" where
  "header_body e buf hs = (\<lambda>(count, acc, thrown).
     case parse_sub_header e buf hs count of
       Inl x \<Rightarrow> (count, acc, Some x)
     | Inr (count', sub) \<Rightarrow> (count', acc @ [sub], None))"

definition header_result :: "header_state \<Rightarrow> (u16 \<times> sub_header list) res" where
  "header_result = (\<lambda>(count, acc, thrown). case thrown of None \<Rightarrow> Inr (count, acc) | Some x \<Rightarrow> Inl x)"

lemma header_loop_ends:
  "\<exists>k t. ends_after (header_guard hs) (header_body e buf hs) (count, acc, None) k t \<and>
     header_result t = parse_sub_headers_loop e buf hs count acc \<and> 3 * k \<le> unat hs - unat count + 3"
proof (induction e buf hs count acc rule: parse_sub_headers_loop.induct)
  case (1 e buf hs count acc)
  let ?ends = "ends_after (header_guard hs) (header_body e buf hs)"
  show ?case
  proof (cases "count < hs")
    case True
    then have g: "header_guard hs (count, acc, None)" by (simp add: header_guard_def)
    show ?thesis
    proof (cases "parse_sub_header e buf hs count")
      case (Inl x)
      then have "header_body e buf hs (count, acc, None) = (count, acc, Some x)" by (simp add: header_body_def)
      then have "?ends (count, acc, None) (Suc 0) (count, acc, Some x)"
        by (intro ends_after_Suc g) (auto simp: header_guard_def intro: ends_after_0)
      with True Inl show ?thesis
        by (intro exI [where x = "Suc 0"] exI [where x = "(count, acc, Some x)"])
          (simp add: header_result_def parse_sub_headers_loop.simps [of e buf hs count acc])
    next
      case (Inr r)
      obtain count' sub where r: "r = (count', sub)" by force
      obtain k t where kt: "?ends (count', acc @ [sub], None) k t"
        "header_result t = parse_sub_headers_loop e buf hs count' (acc @ [sub])" "3 * k \<le> unat hs - unat count' + 3"
        using "1.IH" [OF True Inr r [symmetric]] by blast
      have "header_body e buf hs (count, acc, None) = (count', acc @ [sub], None)"
        using Inr r by (simp add: header_body_def)
      then have "?ends (count, acc, None) (Suc k) t" using kt(1) by (intro ends_after_Suc g) simp
      moreover have "unat count + 3 \<le> unat count' \<and> unat count' \<le> unat hs"
        using parse_sub_header_progress [of count hs e buf count' sub] True Inr r by (simp add: word_le_nat_alt)
      then have "3 * Suc k \<le> unat hs - unat count + 3" using kt(3) by arith
      ultimately show ?thesis using kt(2) True Inr r
        by (intro exI [where x = "Suc k"] exI [where x = t] conjI)
          (simp_all only: parse_sub_headers_loop.simps [of e buf hs count acc] if_True sum.case prod.case)
    qed
  next
    case False
    then have "?ends (count, acc, None) 0 (count, acc, None)"
      by (intro ends_after_0) (simp add: header_guard_def)
    with False show ?thesis
      by (intro exI [where x = 0] exI [where x = "(count, acc, None)"])
        (simp add: header_result_def parse_sub_headers_loop.simps [of e buf hs count acc])
  qed
qed

text \<open>C20: The loop over the sub-headers ends: on any buffer and any header size it ends after at most
  a third of the header size and one more iterations, with a throw or with what the recursive
  model of it returns.\<close>

theorem header_loop_terminates:
  "\<exists>k t. while_option (header_guard hs) (header_body e buf hs) (0, [], None) = Some t \<and>
     t = (header_body e buf hs ^^ k) (0, [], None) \<and> k \<le> unat hs div 3 + 1 \<and>
     header_result t = parse_sub_headers_loop e buf hs 0 []"
proof -
  obtain k t where "ends_after (header_guard hs) (header_body e buf hs) (0, [], None) k t"
    "header_result t = parse_sub_headers_loop e buf hs 0 []" "3 * k \<le> unat hs + 3"
    using header_loop_ends [of hs e buf 0 "[]"] by auto
  then show ?thesis
    by (intro exI [where x = k] exI [where x = t]) (auto simp: ends_after_while ends_after_def)
qed

subsection \<open>The loop that reads a file\<close>

text \<open>
  The condition of the loop makes the read, so a state is the stream after it and the content
  appended so far.
\<close>

definition reading_guard :: "ifstream \<times> string \<Rightarrow> bool" where
  "reading_guard = (\<lambda>(s, content). \<not> is_fail s)"

definition reading_body :: "ifstream \<times> string \<Rightarrow> ifstream \<times> string" where
  "reading_body = (\<lambda>(s, content). (ifstream_read 512 s, content @ take 512 (is_buff s)))"

lemma reading_loop_ends:
  "\<not> is_fail s \<Longrightarrow> \<not> is_eof s \<Longrightarrow>
     ends_after reading_guard reading_body (ifstream_read 512 s, content) (length (is_rest s) div 512)
       (read_loop s content)"
proof (induction s content rule: read_loop.induct)
  case (1 s content)
  let ?s = "ifstream_read 512 s"
  show ?case
  proof (cases "512 \<le> length (is_rest s)")
    case True
    then have ok: "\<not> is_fail ?s" "\<not> is_eof ?s" "length (is_rest ?s) = length (is_rest s) - 512"
      using "1.prems" by (simp_all add: ifstream_read_def)
    have "length (is_rest s) div 512 = Suc (length (is_rest ?s) div 512)"
      using True ok(3) by (simp add: le_div_geq)
    moreover have "reading_body (?s, content) = (ifstream_read 512 ?s, content @ take 512 (is_buff ?s))"
      by (simp add: reading_body_def)
    moreover have "read_loop s content = read_loop ?s (content @ take 512 (is_buff ?s))"
      using ok(1) by (subst read_loop.simps) (simp add: Let_def)
    moreover have "reading_guard (?s, content)" using ok by (simp add: reading_guard_def)
    ultimately show ?thesis
      using ends_after_Suc "1.IH" [OF refl ok(1) ok(1,2)] by metis
  next
    case False
    then have "is_fail ?s" using "1.prems" by (simp add: ifstream_read_def)
    moreover from this have "read_loop s content = (?s, content)"
      by (subst read_loop.simps) (simp add: Let_def)
    moreover have "length (is_rest s) div 512 = 0" using False by simp
    ultimately show ?thesis by (simp add: ends_after_0 reading_guard_def)
  qed
qed

text \<open>The loop that reads a file ends: \<open>Config::load\<close> and \<open>load_file_content\<close> make exactly one read
  more than there are whole chunks of 512 bytes in the file, readable to its end or not, and
  leave the loop with the stream and the content the recursive model of it returns.\<close>

lemma reading_loop_terminates:
  "while_option reading_guard reading_body (ifstream_read 512 (ifstream_open f), []) =
      Some (read_loop (ifstream_open f) []) \<and>
    read_loop (ifstream_open f) [] =
      (reading_body ^^ (length (file_data f) div 512)) (ifstream_read 512 (ifstream_open f), [])"
proof -
  have "ends_after reading_guard reading_body (ifstream_read 512 (ifstream_open f), [])
      (length (file_data f) div 512) (read_loop (ifstream_open f) [])"
    using reading_loop_ends [of "ifstream_open f" "[]"] by (simp add: ifstream_open_def)
  then show ?thesis by (simp add: ends_after_while ends_after_def)
qed

end
