(* ===== verification/Config.thy ===== *)
theory Config
  imports File_Stream
begin

section \<open>The configuration\<close>

text \<open>
  The class \<open>Config\<close> of \<open>src/config/config.hpp\<close> and \<open>config.cpp\<close>. Boost.JSON is not part of
  the sources: its parser and the accessors the code calls are the parameter \<open>J\<close>, a record of
  functions over a type of values and a type of objects, and \<open>json_ok\<close> states the documented
  behaviour the code relies on.
\<close>

datatype json_kind = K_null | K_bool | K_int64 | K_uint64 | K_double | K_string | K_array | K_object

record ('v, 'o) json_ops =
  jo_parse :: "string \<Rightarrow> 'v option"
  jo_kind :: "'v \<Rightarrow> json_kind"
  jo_null :: 'v
  jo_as_bool :: "'v \<Rightarrow> bool res"
  jo_as_int64 :: "'v \<Rightarrow> int res"
  jo_as_string :: "'v \<Rightarrow> string res"
  jo_as_object :: "'v \<Rightarrow> 'o res"
  jo_empty :: 'o
  jo_find :: "'o \<Rightarrow> string \<Rightarrow> 'v option"
  jo_items :: "'o \<Rightarrow> (string \<times> 'v) list"

definition json_ok :: "('v, 'o) json_ops \<Rightarrow> bool" where
  "json_ok J \<longleftrightarrow>
     jo_kind J (jo_null J) = K_null \<and>
     (\<forall>v. (\<exists>b. jo_as_bool J v = Inr b) \<longleftrightarrow> jo_kind J v = K_bool) \<and>
     (\<forall>v. (\<exists>i. jo_as_int64 J v = Inr i) \<longleftrightarrow> jo_kind J v = K_int64) \<and>
     (\<forall>v. (\<exists>s. jo_as_string J v = Inr s) \<longleftrightarrow> jo_kind J v = K_string) \<and>
     (\<forall>v. (\<exists>ob. jo_as_object J v = Inr ob) \<longleftrightarrow> jo_kind J v = K_object) \<and>
     (\<forall>k. jo_find J (jo_empty J) k = None) \<and>
     (\<forall>ob k. jo_find J ob k = map_of (jo_items J ob) k) \<and>
     (\<forall>ob. distinct (map fst (jo_items J ob)))"

record 'o config =
  cfg_file_path :: string
  cfg_root :: 'o

subsection \<open>Loading\<close>

definition config_load :: "('v, 'o) json_ops \<Rightarrow> file_system \<Rightarrow> 'o config \<Rightarrow> (bool \<times> 'o config) res" where
  "config_load J fs c =
     (case fs (cfg_file_path c) of
        None \<Rightarrow> Inr (False, c)
      | Some f \<Rightarrow>
          (case read_contents f of
             None \<Rightarrow> Inr (False, c)
           | Some text \<Rightarrow>
               (case jo_parse J text of
                  None \<Rightarrow> Inr (False, c)
                | Some v \<Rightarrow>
                    if jo_kind J v \<noteq> K_object then Inr (False, c)
                    else rbind (jo_as_object J v) (\<lambda>ob. Inr (True, c\<lparr>cfg_root := ob\<rparr>)))))"

definition config_new :: "('v, 'o) json_ops \<Rightarrow> file_system \<Rightarrow> string \<Rightarrow> 'o config res" where
  "config_new J fs path =
     rbind (config_load J fs \<lparr>cfg_file_path = path, cfg_root = jo_empty J\<rparr>) (\<lambda>(ok, c). Inr c)"

definition config_reload :: "('v, 'o) json_ops \<Rightarrow> file_system \<Rightarrow> 'o config \<Rightarrow> (bool \<times> 'o config) res" where
  "config_reload J fs c = config_load J fs c"

subsection \<open>Lookup\<close>

definition str_find :: "char \<Rightarrow> string \<Rightarrow> nat option" where
  "str_find c s = (if c \<in> set s then Some (length (takeWhile (\<lambda>x. x \<noteq> c) s)) else None)"

definition find_key :: "('v, 'o) json_ops \<Rightarrow> 'o config \<Rightarrow> string \<Rightarrow> 'v res" where
  "find_key J c key =
     (case str_find (CHR ''.'') key of
        None \<Rightarrow> (case jo_find J (cfg_root c) key of Some v \<Rightarrow> Inr v | None \<Rightarrow> Inr (jo_null J))
      | Some index_of_dot \<Rightarrow>
          let parent_key = take index_of_dot key; child_key = drop (index_of_dot + 1) key in
          (case jo_find J (cfg_root c) parent_key of
             None \<Rightarrow> Inr (jo_null J)
           | Some p \<Rightarrow>
               if jo_kind J p \<noteq> K_object then Inr (jo_null J)
               else rbind (jo_as_object J p) (\<lambda>child_obj.
                 (case jo_find J child_obj child_key of Some v \<Rightarrow> Inr v | None \<Rightarrow> Inr (jo_null J)))))"

definition config_get :: "('v, 'o) json_ops \<Rightarrow> 'o config \<Rightarrow> string \<Rightarrow> 'v res" where
  "config_get J c key =
     rbind (find_key J c key) (\<lambda>v.
       if jo_kind J v = K_null then Inl (Thrown_string (''Config key not found: '' @ key)) else Inr v)"

definition get_string :: "('v, 'o) json_ops \<Rightarrow> 'o config \<Rightarrow> string \<Rightarrow> string \<Rightarrow> string res" where
  "get_string J c key default_value =
     rbind (find_key J c key) (\<lambda>v.
       if jo_kind J v = K_null \<or> jo_kind J v \<noteq> K_string then Inr default_value
       else jo_as_string J v)"

text \<open>\<^verbatim>\<open>static_cast<int>\<close> of a 64-bit integer keeps the low 32 bits.\<close>

definition to_int32 :: "int \<Rightarrow> int" where
  "to_int32 i = signed_take_bit 31 i"

definition get_int :: "('v, 'o) json_ops \<Rightarrow> 'o config \<Rightarrow> string \<Rightarrow> int \<Rightarrow> int res" where
  "get_int J c key default_value =
     rbind (find_key J c key) (\<lambda>v.
       if jo_kind J v = K_null then Inr default_value
       else if jo_kind J v = K_int64 \<or> jo_kind J v = K_uint64
       then rbind (jo_as_int64 J v) (\<lambda>i. Inr (to_int32 i))
       else Inr default_value)"

definition get_bool :: "('v, 'o) json_ops \<Rightarrow> 'o config \<Rightarrow> string \<Rightarrow> bool \<Rightarrow> bool res" where
  "get_bool J c key default_value =
     rbind (find_key J c key) (\<lambda>v.
       if jo_kind J v = K_null \<or> jo_kind J v \<noteq> K_bool then jo_as_bool J v
       else Inr default_value)"

definition config_has :: "('v, 'o) json_ops \<Rightarrow> 'o config \<Rightarrow> string \<Rightarrow> bool res" where
  "config_has J c key = rbind (find_key J c key) (\<lambda>v. Inr (jo_kind J v \<noteq> K_null))"

end
