(* ===== verification/Json_Instance.thy ===== *)
theory Json_Instance
  imports Config
begin

section \<open>A concrete JSON library\<close>

text \<open>
  An implementation of the parameter \<open>J\<close> that satisfies \<open>json_ok\<close>: the witnesses of the
  properties that assume it evaluate on this instance. Its parser is a table from texts to values.
\<close>

datatype jv =
    JNull
  | JBool bool
  | JInt int
  | JUint int
  | JDouble
  | JStr string
  | JArr "jv list"
  | JObj "(string \<times> jv) list"

fun jv_kind :: "jv \<Rightarrow> json_kind" where
  "jv_kind JNull = K_null"
| "jv_kind (JBool _) = K_bool"
| "jv_kind (JInt _) = K_int64"
| "jv_kind (JUint _) = K_uint64"
| "jv_kind JDouble = K_double"
| "jv_kind (JStr _) = K_string"
| "jv_kind (JArr _) = K_array"
| "jv_kind (JObj _) = K_object"

definition not_kind :: "'a res" where
  "not_kind = Inl (Library_error ''value is not of the requested kind'')"

fun jv_items :: "(string \<times> jv) list \<Rightarrow> (string \<times> jv) list" where
  "jv_items [] = []"
| "jv_items ((k, v) # xs) = (k, v) # filter (\<lambda>p. fst p \<noteq> k) (jv_items xs)"

definition jv_ops :: "(string \<Rightarrow> jv option) \<Rightarrow> (jv, (string \<times> jv) list) json_ops" where
  "jv_ops parse =
     \<lparr>jo_parse = parse, jo_kind = jv_kind, jo_null = JNull,
      jo_as_bool = (\<lambda>v. case v of JBool b \<Rightarrow> Inr b | _ \<Rightarrow> not_kind),
      jo_as_int64 = (\<lambda>v. case v of JInt i \<Rightarrow> Inr i | _ \<Rightarrow> not_kind),
      jo_as_string = (\<lambda>v. case v of JStr s \<Rightarrow> Inr s | _ \<Rightarrow> not_kind),
      jo_as_object = (\<lambda>v. case v of JObj xs \<Rightarrow> Inr xs | _ \<Rightarrow> not_kind),
      jo_empty = [], jo_find = map_of, jo_items = jv_items\<rparr>"

lemma map_of_filter_other: "k \<noteq> a \<Longrightarrow> map_of (filter (\<lambda>p. fst p \<noteq> a) xs) k = map_of xs k"
  by (induction xs) auto

lemma map_of_jv_items: "map_of (jv_items xs) k = map_of xs k"
proof (induction xs rule: jv_items.induct)
  case (2 a v xs)
  then show ?case by (auto simp: map_of_filter_other)
qed simp

lemma distinct_jv_items: "distinct (map fst (jv_items xs))"
proof (induction xs rule: jv_items.induct)
  case (2 a v xs)
  then show ?case by (auto simp: distinct_map_filter)
qed simp

lemma jv_ops_ok: "json_ok (jv_ops parse)"
proof -
  have "(\<exists>b. (case v of JBool b \<Rightarrow> Inr b | _ \<Rightarrow> not_kind) = Inr b) \<longleftrightarrow> jv_kind v = K_bool" for v
    by (cases v) (simp_all add: not_kind_def)
  moreover have "(\<exists>b. (case v of JInt b \<Rightarrow> Inr b | _ \<Rightarrow> not_kind) = Inr b) \<longleftrightarrow> jv_kind v = K_int64" for v
    by (cases v) (simp_all add: not_kind_def)
  moreover have "(\<exists>b. (case v of JStr b \<Rightarrow> Inr b | _ \<Rightarrow> not_kind) = Inr b) \<longleftrightarrow> jv_kind v = K_string" for v
    by (cases v) (simp_all add: not_kind_def)
  moreover have "(\<exists>b. (case v of JObj b \<Rightarrow> Inr b | _ \<Rightarrow> not_kind) = Inr b) \<longleftrightarrow> jv_kind v = K_object" for v
    by (cases v) (simp_all add: not_kind_def)
  ultimately show ?thesis
    by (simp add: json_ok_def jv_ops_def map_of_jv_items distinct_jv_items)
qed

lemma jv_ops_select [simp]:
  "jo_parse (jv_ops t) = t" "jo_kind (jv_ops t) = jv_kind" "jo_null (jv_ops t) = JNull"
  "jo_as_bool (jv_ops t) (JBool b) = Inr b" "jo_as_int64 (jv_ops t) (JInt i) = Inr i"
  "jo_as_string (jv_ops t) (JStr s) = Inr s" "jo_as_object (jv_ops t) (JObj xs) = Inr xs"
  "jo_empty (jv_ops t) = []" "jo_find (jv_ops t) = map_of" "jo_items (jv_ops t) = jv_items"
  by (simp_all add: jv_ops_def)

end
