(* ===== verification/Config_Props.thy ===== *)
theory Config_Props
  imports Json_Instance
begin

section \<open>What the configuration promises\<close>

text \<open>
  The value a dotted key names, the outcome of loading, and the typed getters against it.
\<close>

definition config_value :: "('v, 'o) json_ops \<Rightarrow> 'o \<Rightarrow> string \<Rightarrow> 'v option" where
  "config_value J root key =
     (if CHR ''.'' \<notin> set key then jo_find J root key
      else (case jo_find J root (takeWhile (\<lambda>x. x \<noteq> CHR ''.'') key) of
              None \<Rightarrow> None
            | Some v \<Rightarrow> (case jo_as_object J v of
                Inl _ \<Rightarrow> None
              | Inr ob \<Rightarrow> jo_find J ob (tl (dropWhile (\<lambda>x. x \<noteq> CHR ''.'') key)))))"

lemma drop_Suc_takeWhile: "drop (Suc (length (takeWhile P xs))) xs = tl (dropWhile P xs)"
  by (simp add: dropWhile_eq_drop drop_Suc tl_drop)

lemma find_key_value:
  assumes "json_ok J"
  shows "find_key J c key = Inr (case config_value J (cfg_root c) key of Some v \<Rightarrow> v | None \<Rightarrow> jo_null J)"
proof (cases "CHR ''.'' \<in> set key")
  case False
  then show ?thesis by (simp add: find_key_def str_find_def config_value_def split: option.splits)
next
  case True
  let ?p = "takeWhile (\<lambda>x. x \<noteq> CHR ''.'') key"
  have obj: "jo_kind J v = K_object \<longleftrightarrow> (\<exists>ob. jo_as_object J v = Inr ob)" for v
    using assms by (simp add: json_ok_def)
  have "take (length ?p) key = ?p" by (metis takeWhile_eq_take)
  with True obj show ?thesis
    by (auto simp: find_key_def str_find_def config_value_def Let_def drop_Suc_takeWhile
        split: option.splits sum.splits)
qed

text \<open>A key with a dot names a member of a top-level object, split at the first dot, and a key
  without one a top-level member; the lookup never throws, and yields null for a missing member or
  a parent that is not an object. So a dotted top-level member and a third level of nesting
  cannot be reached.\<close>

lemma find_key_resolves:
  assumes "json_ok J" and "CHR ''.'' \<notin> set parent"
  shows "find_key J c parent = Inr (case jo_find J (cfg_root c) parent of Some v \<Rightarrow> v | None \<Rightarrow> jo_null J) \<and>
     find_key J c (parent @ CHR ''.'' # child) =
       Inr (case jo_find J (cfg_root c) parent of
              None \<Rightarrow> jo_null J
            | Some v \<Rightarrow> (case jo_as_object J v of
                Inl _ \<Rightarrow> jo_null J
              | Inr ob \<Rightarrow> (case jo_find J ob child of Some w \<Rightarrow> w | None \<Rightarrow> jo_null J)))"
proof -
  have "takeWhile (\<lambda>x. x \<noteq> CHR ''.'') (parent @ CHR ''.'' # child) = parent"
    using assms(2) by (subst takeWhile_append2) auto
  moreover have "dropWhile (\<lambda>x. x \<noteq> CHR ''.'') (parent @ CHR ''.'' # child) = CHR ''.'' # child"
    using assms(2) by (subst dropWhile_append2) auto
  ultimately show ?thesis
    using assms(2) unfolding find_key_value [OF assms(1)] config_value_def
    by (auto split: option.splits sum.splits)
qed

lemma find_key_resolves_demo:
  "find_key (jv_ops (\<lambda>_. None)) \<lparr>cfg_file_path = [], cfg_root = [(''a'', JObj [(''b.c'', JInt 7)])]\<rparr>
     (''a'' @ CHR ''.'' # ''b.c'') = Inr (JInt 7)"
  using find_key_resolves [OF jv_ops_ok [of "\<lambda>_. None"], of "''a''" _ "''b.c''"]
  by simp

text \<open>C25: Loading is all or nothing: the file is read completely, whatever its length; when it is
  missing, unreadable, not JSON or not an object, load returns false and keeps the configuration
  that was there; otherwise the root becomes exactly the parsed object. This holds of reload too,
  so a bad file at reload time leaves the running configuration in force.\<close>

theorem config_load_all_or_nothing:
  assumes "json_ok J"
  shows "config_reload J fs c =
     (case fs (cfg_file_path c) of
        Some f \<Rightarrow>
          (if file_broken f then Inr (False, c)
           else case jo_parse J (file_data f) of
             Some v \<Rightarrow> (case jo_as_object J v of Inr ob \<Rightarrow> Inr (True, c\<lparr>cfg_root := ob\<rparr>) | Inl _ \<Rightarrow> Inr (False, c))
           | None \<Rightarrow> Inr (False, c))
      | None \<Rightarrow> Inr (False, c))"
proof -
  have "jo_kind J v = K_object \<longleftrightarrow> (\<exists>ob. jo_as_object J v = Inr ob)" for v
    using assms by (simp add: json_ok_def)
  then show ?thesis
    by (auto simp: config_reload_def config_load_def read_contents_eq split: option.splits sum.splits)
qed

theorem config_load_all_or_nothing_witness:
  "config_reload (jv_ops (\<lambda>t. if t = ''{}'' then Some (JObj []) else None))
     [''c'' \<mapsto> \<lparr>file_data = ''{'', file_broken = False\<rparr>]
     \<lparr>cfg_file_path = ''c'', cfg_root = [(''k'', JInt 1)]\<rparr>
   = Inr (False, \<lparr>cfg_file_path = ''c'', cfg_root = [(''k'', JInt 1)]\<rparr>)"
  by (simp add: config_load_all_or_nothing [OF jv_ops_ok])

text \<open>\<open>get_bool\<close> never returns what the file says: for a key that holds a boolean it returns the
  caller's default, and for a key that is missing or holds anything else it throws.\<close>

lemma get_bool_ignores_configuration:
  assumes "json_ok J"
  shows "case config_value J (cfg_root c) key of
       Some v \<Rightarrow> (if jo_kind J v = K_bool then get_bool J c key d = Inr d
                  else \<exists>x. get_bool J c key d = Inl x)
     | None \<Rightarrow> \<exists>x. get_bool J c key d = Inl x"
proof -
  have thr: "jo_kind J v \<noteq> K_bool \<Longrightarrow> \<exists>x. jo_as_bool J v = Inl x" for v
    using assms by (cases "jo_as_bool J v") (auto simp: json_ok_def)
  have "jo_kind J (jo_null J) = K_null" using assms by (simp add: json_ok_def)
  moreover from this have "\<exists>x. jo_as_bool J (jo_null J) = Inl x" using thr by simp
  moreover have "get_bool J c key d = (if jo_kind J v = K_bool then Inr d else jo_as_bool J v)"
    if "find_key J c key = Inr v" for v using that by (simp add: get_bool_def)
  ultimately show ?thesis
    using thr find_key_value [OF assms, of c key] \<open>jo_kind J (jo_null J) = K_null\<close>
    by (auto split: option.splits)
qed

lemma to_int32_bounds: "- (2 ^ 31) \<le> to_int32 i \<and> to_int32 i < 2 ^ 31"
  unfolding to_int32_def
  using signed_take_bit_int_greater_eq_minus_exp [of 31 i] signed_take_bit_int_less_exp [of 31 i] by simp

lemma to_int32_id: "- (2 ^ 31) \<le> i \<Longrightarrow> i < 2 ^ 31 \<Longrightarrow> to_int32 i = i"
  unfolding to_int32_def by (rule signed_take_bit_int_eq_self) auto

text \<open>C40: \<open>get_int\<close> and \<open>get_string\<close>, over any JSON library that meets the contract: a key that holds a signed integer that fits an int, or a
  string, gives that value; a missing key or a value of another kind gives the default; an
  integer that does not fit is wrapped into the range of int; and an integer too big for a signed
  64-bit value throws instead of giving the default.\<close>

theorem typed_getters:
  assumes "json_ok J"
  shows "(case config_value J (cfg_root c) key of
       Some v \<Rightarrow>
         (jo_kind J v \<notin> {K_int64, K_uint64} \<longrightarrow> get_int J c key d = Inr d) \<and>
         (jo_kind J v = K_uint64 \<longrightarrow> (\<exists>x. get_int J c key d = Inl x)) \<and>
         (\<forall>i. jo_as_int64 J v = Inr i \<longrightarrow>
            (\<exists>r. get_int J c key d = Inr r \<and> - (2 ^ 31) \<le> r \<and> r < 2 ^ 31 \<and> (r - i) mod 2 ^ 32 = 0)) \<and>
         (jo_kind J v \<noteq> K_string \<longrightarrow> get_string J c key ds = Inr ds) \<and>
         (\<forall>s. jo_as_string J v = Inr s \<longrightarrow> get_string J c key ds = Inr s)
     | None \<Rightarrow> get_int J c key d = Inr d \<and> get_string J c key ds = Inr ds)"
proof -
  have null: "jo_kind J (jo_null J) = K_null" using assms by (simp add: json_ok_def)
  have int: "jo_as_int64 J v = Inr i \<Longrightarrow> jo_kind J v = K_int64" for v i
    using assms by (auto simp: json_ok_def)
  have str: "jo_as_string J v = Inr s \<Longrightarrow> jo_kind J v = K_string" for v s
    using assms by (auto simp: json_ok_def)
  have "jo_kind J v \<noteq> K_int64 \<Longrightarrow> \<exists>x. jo_as_int64 J v = Inl x" for v
    using assms by (cases "jo_as_int64 J v") (auto simp: json_ok_def)
  then have uint: "jo_kind J v = K_uint64 \<Longrightarrow> \<exists>x. jo_as_int64 J v = Inl x" for v by simp
  have "(to_int32 i - i) mod 2 ^ 32 = 0" for i
  proof -
    have "take_bit 32 (to_int32 i) = take_bit 32 i"
      unfolding to_int32_def by (simp add: take_bit_signed_take_bit)
    then show ?thesis by (simp add: take_bit_eq_mod mod_eq_dvd_iff)
  qed
  with null int str uint to_int32_bounds show ?thesis
    by (fastforce simp: get_int_def get_string_def find_key_value [OF assms] rbind_eq_Inl
        split: option.splits)
qed

theorem typed_getters_witness:
  "\<exists>r. get_int (jv_ops (\<lambda>_. None)) \<lparr>cfg_file_path = [], cfg_root = [(''p'', JInt 4294967297)]\<rparr> ''p'' 5 = Inr r \<and>
     (r - 4294967297) mod 2 ^ 32 = 0"
  using typed_getters [OF jv_ops_ok [of "\<lambda>_. None"],
      where c = "\<lparr>cfg_file_path = [], cfg_root = [(''p'', JInt 4294967297)]\<rparr>"
        and key = "''p''" and d = 5 and ds = "[]"]
  by (simp add: config_value_def) (elim conjE exE, intro exI conjI, assumption+)

end
