(* ===== verification/Auth_Types.thy ===== *)
theory Auth_Types
  imports Prelude
begin

section \<open>Authentication messages\<close>

text \<open>
  The types of \<open>common/auth/auth_types.hpp\<close> and \<open>common/auth/error_code.hpp\<close>, the action codes of
  \<open>common/auth/auth_validator.cpp\<close> and the decoding of a login request. Boost.Serialization is
  not part of the sources: the archive that reads a request from a byte string is the parameter
  \<open>D\<close>.
\<close>

datatype auth_action =
    AA_Unknown | AA_Login | AA_LoginResponse | AA_Register | AA_RegisterResponse

fun auth_action_value :: "auth_action \<Rightarrow> u8" where
  "auth_action_value AA_Unknown = 0"
| "auth_action_value AA_Login = 10"
| "auth_action_value AA_LoginResponse = 11"
| "auth_action_value AA_Register = 20"
| "auth_action_value AA_RegisterResponse = 21"

datatype auth_status = AS_Error | AS_Success

fun auth_status_value :: "auth_status \<Rightarrow> u8" where
  "auth_status_value AS_Error = 1"
| "auth_status_value AS_Success = 2"

datatype error_code =
    EC_Success
  | EC_InvalidUserId
  | EC_InvalidUserIdLength
  | EC_InvalidPasswordLength
  | EC_DatabaseUserNotFound
  | EC_DatabaseInsertFailed

fun error_code_value :: "error_code \<Rightarrow> u16" where
  "error_code_value EC_Success = 1"
| "error_code_value EC_InvalidUserId = 101"
| "error_code_value EC_InvalidUserIdLength = 102"
| "error_code_value EC_InvalidPasswordLength = 103"
| "error_code_value EC_DatabaseUserNotFound = 201"
| "error_code_value EC_DatabaseInsertFailed = 202"

record login_request =
  lr_user_id :: string
  lr_password :: string

record login_response =
  lresp_status :: auth_status
  lresp_error_code :: error_code
  lresp_session_id :: string

subsection \<open>\<open>AuthValidator\<close>\<close>

definition action_from_byte :: "u8 \<Rightarrow> auth_action" where
  "action_from_byte action =
     (if action = 10 then AA_Login
      else if action = 11 then AA_Register
      else AA_Unknown)"

definition validateAction :: "u8 \<Rightarrow> bool" where
  "validateAction action \<longleftrightarrow> action_from_byte action \<noteq> AA_Unknown"

subsection \<open>\<open>deserialize_login_request\<close>\<close>

type_synonym archive_reader = "bytes \<Rightarrow> login_request res"

definition deserialize_login_request :: "archive_reader \<Rightarrow> bytes \<Rightarrow> nat \<Rightarrow> login_request res" where
  "deserialize_login_request D body n = rbind (mem_read body 0 n) (\<lambda>data. D data)"

text \<open>A concrete archive, for witnesses.\<close>

definition demo_archive :: archive_reader where
  "demo_archive = (\<lambda>data. Inr \<lparr>lr_user_id = ''user'', lr_password = ''secret''\<rparr>)"

lemma action_from_byte_cases:
  "action_from_byte b \<in> {AA_Unknown, AA_Login, AA_Register}"
  by (simp add: action_from_byte_def)

lemma error_code_value_inj: "error_code_value a = error_code_value b \<Longrightarrow> a = b"
  by (cases a; cases b) simp_all

end
