(* ===== verification/Session_Core.thy ===== *)
theory Session_Core
  imports Config Auth_Types "HOL-Library.Multiset"
begin

section \<open>The state of a connection\<close>

text \<open>
  A connection is a \<open>Session\<close> (\<open>src/session\<close>) with its \<open>Reader\<close> and \<open>Writer\<close>
  (\<open>src/network\<close>), which refer to the session's socket and hold the session weakly. All their
  handlers run on the strand of the socket, one after the other, so a connection is one state and
  every handler a function on it.

  Boost.Asio is not part of the sources. What the code does with it is kept as data: \<open>pending\<close>
  holds the asynchronous operations started and not completed, and \<open>effects\<close> the synchronous
  calls in order. When and with which result an operation completes is decided by the events of
  \<open>Connection\<close>.

  Lifetime is explicit. \<open>owned\<close> says whether a \<^verbatim>\<open>shared_ptr\<close> owns the session, which
  \<^verbatim>\<open>shared_from_this\<close> needs, and \<open>alive\<close> whether the object still exists: the server's set of
  sessions, a pending wait on the idle timer and a login coroutine keep it alive, the pending
  operations of its reader and writer do not.
\<close>

datatype asio_error = Operation_aborted | Asio_failure nat

type_synonym ec = "asio_error option"

datatype timer_id = Idle_timer | Read_timer | Write_timer

datatype expiry = Never | After int

datatype async_op =
    Op_read_length
  | Op_read_body nat
  | Op_write bytes
  | Op_wait timer_id
  | Op_post bytes
  | Op_login login_request

datatype sync_effect =
    Eff_close
  | Eff_cancel timer_id
  | Eff_expires timer_id expiry
  | Eff_on_close
  | Eff_write bytes
  | Eff_deliver bytes

record reader =
  rd_packet_length :: u32
  rd_packet_buffer :: bytes
  rd_expiry :: expiry
  rd_seconds :: int

record writer =
  wr_queue :: "bytes list"
  wr_expiry :: expiry
  wr_seconds :: int

record session =
  owned :: bool
  alive :: bool
  sock_open :: bool
  stopped :: bool
  on_close_set :: bool
  in_sessions :: bool
  idle_expiry :: expiry
  seconds_idle :: int
  pending :: "async_op multiset"
  effects :: "sync_effect list"

record connection = session +
  conn_reader :: reader
  conn_writer :: writer

definition start_op :: "async_op \<Rightarrow> 'a session_scheme \<Rightarrow> 'a session_scheme" where
  "start_op op s = s\<lparr>pending := add_mset op (pending s)\<rparr>"

definition emit :: "sync_effect \<Rightarrow> 'a session_scheme \<Rightarrow> 'a session_scheme" where
  "emit x s = s\<lparr>effects := effects s @ [x]\<rparr>"

text \<open>
  \<^verbatim>\<open>expires_at\<close> and \<^verbatim>\<open>expires_after\<close> set the deadline of a timer and, as \<^verbatim>\<open>cancel\<close> does, abort the
  wait pending on it: the call is kept as an effect, and the deadline in the state.
\<close>

definition set_idle_expiry :: "expiry \<Rightarrow> 'a session_scheme \<Rightarrow> 'a session_scheme" where
  "set_idle_expiry x s = emit (Eff_expires Idle_timer x) (s\<lparr>idle_expiry := x\<rparr>)"

text \<open>
  \<^verbatim>\<open>shared_from_this\<close> throws \<^verbatim>\<open>bad_weak_ptr\<close> while no \<^verbatim>\<open>shared_ptr\<close> owns the object, so also in its
  constructor; \<^verbatim>\<open>weak_ptr::lock\<close> gives nothing for a destroyed session; and the reader's and
  writer's reference to the socket dangles once the session is destroyed.
\<close>

definition shared_from_this :: "bool \<Rightarrow> unit res" where
  "shared_from_this has_owner = (if has_owner then Inr () else Inl Bad_weak_ptr)"

definition with_session ::
  "('a session_scheme \<Rightarrow> 'a session_scheme res) \<Rightarrow> 'a session_scheme \<Rightarrow> 'a session_scheme res" where
  "with_session f s = (if alive s then f s else Inr s)"

definition use_socket ::
  "('a session_scheme \<Rightarrow> 'a session_scheme res) \<Rightarrow> 'a session_scheme \<Rightarrow> 'a session_scheme res" where
  "use_socket f s =
     (if alive s then f s else Inl (Undefined_behaviour ''socket of a destroyed session''))"

subsection \<open>\<open>Session::stop\<close> and the idle timer\<close>

definition session_on_close :: "'a session_scheme \<Rightarrow> 'a session_scheme" where
  "session_on_close s = emit Eff_on_close (s\<lparr>in_sessions := False\<rparr>)"

definition session_stop :: "'a session_scheme \<Rightarrow> 'a session_scheme res" where
  "session_stop s =
     (if stopped s then Inr s
      else let s1 = s\<lparr>stopped := True\<rparr>;
               s2 = emit Eff_close (s1\<lparr>sock_open := False\<rparr>);
               s3 = emit (Eff_cancel Idle_timer) s2 in
        if on_close_set s3
        then rbind (shared_from_this (owned s3)) (\<lambda>_. Inr (session_on_close s3))
        else Inr s3)"

definition check_idle_timer :: "'a session_scheme \<Rightarrow> 'a session_scheme res" where
  "check_idle_timer s = rbind (shared_from_this (owned s)) (\<lambda>_. Inr (start_op (Op_wait Idle_timer) s))"

definition idle_timer_handler :: "ec \<Rightarrow> 'a session_scheme \<Rightarrow> 'a session_scheme res" where
  "idle_timer_handler err s =
     (if err = Some Operation_aborted then check_idle_timer s else session_stop s)"

subsection \<open>The constructor\<close>

text \<open>
  The body of the constructor, for an object that a \<^verbatim>\<open>shared_ptr\<close> owns or not; the constructor
  itself runs before \<^verbatim>\<open>make_shared\<close> has made the owner.
\<close>

definition session_body :: "bool \<Rightarrow> ('v, 'o) json_ops \<Rightarrow> 'o config \<Rightarrow> session res" where
  "session_body has_owner J cfg =
     (let s = \<lparr>owned = has_owner, alive = True, sock_open = True, stopped = False, on_close_set = True,
               in_sessions = False, idle_expiry = Never, seconds_idle = 300,
               pending = {#}, effects = []\<rparr> in
      rbind (get_int J cfg ''timeouts.idle_timeout_seconds'' (seconds_idle s)) (\<lambda>n.
      let s1 = s\<lparr>seconds_idle := n\<rparr>; s2 = set_idle_expiry Never s1 in
      check_idle_timer s2))"

definition session_new :: "('v, 'o) json_ops \<Rightarrow> 'o config \<Rightarrow> session res" where
  "session_new J cfg = session_body False J cfg"

subsection \<open>Who keeps the session alive\<close>

fun holds_session :: "async_op \<Rightarrow> bool" where
  "holds_session (Op_wait Idle_timer) = True"
| "holds_session (Op_login _) = True"
| "holds_session _ = False"

definition held :: "'a session_scheme \<Rightarrow> bool" where
  "held s \<longleftrightarrow> in_sessions s \<or> (\<exists>op \<in># pending s. holds_session op)"

text \<open>The end of a handler: the last owner gone, the session and its socket are destroyed.\<close>

definition release :: "'a session_scheme \<Rightarrow> 'a session_scheme" where
  "release s = (if held s then s else s\<lparr>alive := False, sock_open := False\<rparr>)"

end
