(* ===== verification/Router.thy ===== *)
theory Router
  imports Session_Core Packet
begin

section \<open>Routing and the authentication handler\<close>

text \<open>
  \<open>Router::route\<close> (\<open>src/router/router.cpp\<close>) and \<open>AuthHandler::handle\<close>
  (\<open>src/components/auth/auth_handler.cpp\<close>). A login runs as a coroutine on the strand of the
  session: starting it is a pending operation that keeps the session alive.
\<close>

definition auth_handle ::
  "archive_reader \<Rightarrow> 'a session_scheme \<Rightarrow> packet \<Rightarrow> 'a session_scheme res"
where
  "auth_handle D s p =
     (case sub_header_get_uint8 p SH_Action of
        None \<Rightarrow> Inr s
      | Some v \<Rightarrow>
          let actionType = action_from_byte v in
          if actionType = AA_Unknown then Inr s
          else if actionType = AA_Login
          then rbind (deserialize_login_request D (payload_ptr p) (unat (pk_payload_size p))) (\<lambda>request.
               rbind (shared_from_this (owned s)) (\<lambda>_. Inr (start_op (Op_login request) s)))
          else Inr s)"

definition route :: "archive_reader \<Rightarrow> 'a session_scheme \<Rightarrow> packet \<Rightarrow> 'a session_scheme res" where
  "route D s p =
     (case pk_packet_type p of
        PT_Auth \<Rightarrow> auth_handle D s p
      | _ \<Rightarrow> Inr s)"

end
