(* ===== verification/Reader.thy ===== *)
theory Reader
  imports Router
begin

section \<open>The reader\<close>

text \<open>
  The class \<open>Reader\<close> of \<open>src/network/reader.hpp\<close> and \<open>reader.cpp\<close>, and \<open>Session::on_packet\<close>,
  which it calls with every packet read. Reading alternates between the four bytes of the length
  and as many bytes as they announce; the buffer handed on holds both.
\<close>

definition upd_reader :: "(reader \<Rightarrow> reader) \<Rightarrow> connection \<Rightarrow> connection" where
  "upd_reader f c = c\<lparr>conn_reader := f (conn_reader c)\<rparr>"

definition set_read_expiry :: "expiry \<Rightarrow> connection \<Rightarrow> connection" where
  "set_read_expiry x c = emit (Eff_expires Read_timer x) (upd_reader (\<lambda>r. r\<lparr>rd_expiry := x\<rparr>) c)"

definition check_read_deadline :: "bool \<Rightarrow> 'a session_scheme \<Rightarrow> 'a session_scheme res" where
  "check_read_deadline has_owner s =
     rbind (shared_from_this has_owner) (\<lambda>_. Inr (start_op (Op_wait Read_timer) s))"

definition read_deadline_handler :: "ec \<Rightarrow> 'a session_scheme \<Rightarrow> 'a session_scheme res" where
  "read_deadline_handler err s =
     (if err = Some Operation_aborted then check_read_deadline True s
      else with_session session_stop s)"

definition reader_body ::
  "bool \<Rightarrow> ('v, 'o) json_ops \<Rightarrow> 'o config \<Rightarrow> session \<Rightarrow> (reader \<times> session) res"
where
  "reader_body has_owner J cfg s =
     (let r = \<lparr>rd_packet_length = 0, rd_packet_buffer = [], rd_expiry = Never, rd_seconds = 10\<rparr> in
      rbind (get_int J cfg ''timeouts.read_timeout_seconds'' 10) (\<lambda>n.
      let r1 = r\<lparr>rd_seconds := n\<rparr>; r2 = r1\<lparr>rd_expiry := Never\<rparr>;
          s1 = emit (Eff_expires Read_timer Never) s in
      rbind (check_read_deadline has_owner s1) (\<lambda>s'. Inr (r2, s'))))"

definition reader_new :: "('v, 'o) json_ops \<Rightarrow> 'o config \<Rightarrow> session \<Rightarrow> (reader \<times> session) res" where
  "reader_new J cfg s = reader_body False J cfg s"

definition read_length :: "connection \<Rightarrow> connection res" where
  "read_length c =
     (let c1 = set_read_expiry (After (rd_seconds (conn_reader c))) c in
      use_socket (\<lambda>c1. Inr (start_op Op_read_length c1)) c1)"

definition read_body :: "endian \<Rightarrow> connection \<Rightarrow> connection res" where
  "read_body e c =
     (let c1 = set_read_expiry (After (rd_seconds (conn_reader c))) c;
          n = rd_packet_length (conn_reader c1);
          buf = vector_resize (unat (n + PACKET_LENGTH)) (rd_packet_buffer (conn_reader c1)) in
      rbind (mem_write buf 0 (store_u32 e (htonl e n))) (\<lambda>buf1.
      let c2 = upd_reader (\<lambda>r. r\<lparr>rd_packet_buffer := buf1\<rparr>) c1 in
      use_socket (\<lambda>c2. Inr (start_op (Op_read_body (unat n)) c2)) c2))"

text \<open>The completion of the first read: \<open>data\<close> are the bytes now in \<open>packet_length_\<close>.\<close>

definition read_length_handler :: "endian \<Rightarrow> ec \<Rightarrow> bytes \<Rightarrow> connection \<Rightarrow> connection res" where
  "read_length_handler e err data c =
     use_socket (\<lambda>c.
       if \<not> sock_open c then Inr c
       else case err of
         None \<Rightarrow>
           let c1 = upd_reader (\<lambda>r. r\<lparr>rd_packet_length := ntohl e (load_u32 e data)\<rparr>) c in
           if rd_packet_length (conn_reader c1) > MAX_PACKET_SIZE then with_session session_stop c1
           else read_body e c1
       | Some x \<Rightarrow> if x \<noteq> Operation_aborted then with_session session_stop c else Inr c) c"

text \<open>\<open>Session::on_packet\<close>: an exception of the constructor of \<open>Packet\<close> is not caught.\<close>

definition on_packet :: "endian \<Rightarrow> archive_reader \<Rightarrow> bytes \<Rightarrow> connection \<Rightarrow> connection res" where
  "on_packet e D packet c =
     (let c1 = emit (Eff_deliver packet) c in
      rbind (packet_from_bytes e packet) (\<lambda>p. route D c1 p))"

text \<open>The completion of the second read: \<open>data\<close> are the bytes read behind the length.\<close>

definition read_body_handler ::
  "endian \<Rightarrow> archive_reader \<Rightarrow> ec \<Rightarrow> bytes \<Rightarrow> connection \<Rightarrow> connection res"
where
  "read_body_handler e D err data c =
     use_socket (\<lambda>c.
       if \<not> sock_open c then Inr c
       else if \<not> alive c then Inr c
       else case err of
         None \<Rightarrow>
           rbind (mem_write (rd_packet_buffer (conn_reader c)) (unat PACKET_LENGTH) data) (\<lambda>buf.
           let c1 = upd_reader (\<lambda>r. r\<lparr>rd_packet_buffer := []\<rparr>) c in
           rbind (on_packet e D buf c1) (\<lambda>c2.
           read_length (upd_reader (\<lambda>r. r\<lparr>rd_packet_buffer := []\<rparr>) c2)))
       | Some x \<Rightarrow> if x \<noteq> Operation_aborted then session_stop c else Inr c) c"

end
