(* ===== verification/Writer.thy ===== *)
theory Writer
  imports Session_Core
begin

section \<open>The writer\<close>

text \<open>
  The class \<open>Writer\<close> of \<open>src/network/writer.hpp\<close> and \<open>writer.cpp\<close>: packets are appended to a
  queue by closures posted to the strand, one write at a time is in progress, and its packet
  stays at the front of the queue until it has completed.
\<close>

definition upd_writer :: "(writer \<Rightarrow> writer) \<Rightarrow> connection \<Rightarrow> connection" where
  "upd_writer f c = c\<lparr>conn_writer := f (conn_writer c)\<rparr>"

definition set_write_expiry :: "expiry \<Rightarrow> connection \<Rightarrow> connection" where
  "set_write_expiry x c = emit (Eff_expires Write_timer x) (upd_writer (\<lambda>w. w\<lparr>wr_expiry := x\<rparr>) c)"

definition check_write_deadline :: "bool \<Rightarrow> 'a session_scheme \<Rightarrow> 'a session_scheme res" where
  "check_write_deadline has_owner s =
     rbind (shared_from_this has_owner) (\<lambda>_. Inr (start_op (Op_wait Write_timer) s))"

definition write_deadline_handler :: "ec \<Rightarrow> 'a session_scheme \<Rightarrow> 'a session_scheme res" where
  "write_deadline_handler err s =
     (if err = Some Operation_aborted then check_write_deadline True s
      else with_session session_stop s)"

text \<open>The constructor: its body, and the constructor as it runs, before the writer has an owner.\<close>

definition writer_body ::
  "bool \<Rightarrow> ('v, 'o) json_ops \<Rightarrow> 'o config \<Rightarrow> session \<Rightarrow> (writer \<times> session) res"
where
  "writer_body has_owner J cfg s =
     (let w = \<lparr>wr_queue = [], wr_expiry = Never, wr_seconds = 10\<rparr> in
      rbind (get_int J cfg ''timeouts.write_timeout_seconds'' (wr_seconds w)) (\<lambda>n.
      let w1 = w\<lparr>wr_seconds := n\<rparr>; w2 = w1\<lparr>wr_expiry := Never\<rparr>;
          s1 = emit (Eff_expires Write_timer Never) s in
      rbind (check_write_deadline has_owner s1) (\<lambda>s'. Inr (w2, s'))))"

definition writer_new :: "('v, 'o) json_ops \<Rightarrow> 'o config \<Rightarrow> session \<Rightarrow> (writer \<times> session) res" where
  "writer_new J cfg s = writer_body False J cfg s"

text \<open>\<open>add_packet\<close> posts; the closure it posts is \<open>add_packet_posted\<close>.\<close>

definition add_packet :: "bytes \<Rightarrow> connection \<Rightarrow> connection res" where
  "add_packet packet c = use_socket (\<lambda>c. Inr (start_op (Op_post packet) c)) c"

definition writer_write :: "connection \<Rightarrow> connection res" where
  "writer_write c =
     (let c1 = set_write_expiry (After (wr_seconds (conn_writer c))) c in
      use_socket (\<lambda>c1.
        case wr_queue (conn_writer c1) of
          [] \<Rightarrow> Inl (Undefined_behaviour ''front of an empty queue'')
        | front # _ \<Rightarrow> Inr (start_op (Op_write front) (emit (Eff_write front) c1))) c1)"

definition add_packet_posted :: "bytes \<Rightarrow> connection \<Rightarrow> connection res" where
  "add_packet_posted packet c =
     (let writing = (wr_queue (conn_writer c) \<noteq> []);
          c1 = upd_writer (\<lambda>w. w\<lparr>wr_queue := wr_queue w @ [packet]\<rparr>) c in
      if \<not> writing then writer_write c1 else Inr c1)"

definition pop_front :: "connection \<Rightarrow> connection res" where
  "pop_front c =
     (case wr_queue (conn_writer c) of
        [] \<Rightarrow> Inl (Undefined_behaviour ''pop of an empty queue'')
      | _ # rest \<Rightarrow> Inr (upd_writer (\<lambda>w. w\<lparr>wr_queue := rest\<rparr>) c))"

definition write_handler :: "ec \<Rightarrow> connection \<Rightarrow> connection res" where
  "write_handler err c =
     use_socket (\<lambda>c.
       if \<not> sock_open c then Inr c
       else case err of
         None \<Rightarrow>
           rbind (pop_front c) (\<lambda>c1.
             if wr_queue (conn_writer c1) \<noteq> [] then writer_write c1
             else Inr (set_write_expiry Never c1))
       | Some e \<Rightarrow> if e \<noteq> Operation_aborted then with_session session_stop c else Inr c) c"

end
