(* ===== verification/Session.thy ===== *)
theory Session
  imports Reader Writer
begin

section \<open>The session\<close>

text \<open>
  The remaining operations of \<open>Session\<close> (\<open>src/session/session.cpp\<close>): \<open>start\<close>, which makes the
  reader and the writer, \<open>read_packet\<close> and \<open>write_packet\<close>, and the queries of the peer.
\<close>

definition read_packet :: "connection \<Rightarrow> connection res" where
  "read_packet c =
     (let c1 = set_idle_expiry (After (seconds_idle c)) c in read_length c1)"

definition write_packet :: "bytes \<Rightarrow> connection \<Rightarrow> connection res" where
  "write_packet packet c =
     (let c1 = set_idle_expiry (After (seconds_idle c)) c in add_packet packet c1)"

definition attach :: "session \<Rightarrow> reader \<Rightarrow> writer \<Rightarrow> connection" where
  "attach s r w =
     \<lparr>owned = owned s, alive = alive s, sock_open = sock_open s, stopped = stopped s,
      on_close_set = on_close_set s, in_sessions = in_sessions s, idle_expiry = idle_expiry s,
      seconds_idle = seconds_idle s, pending = pending s, effects = effects s,
      conn_reader = r, conn_writer = w\<rparr>"

text \<open>
  The constructors of \<open>Session\<close>, \<open>Reader\<close> and \<open>Writer\<close> each read the one \<open>Config\<close> of the process, which
  another worker may reload in between: a session may be made from three configurations.
\<close>

record 'o config_reads =
  cfg_session :: "'o config"
  cfg_reader :: "'o config"
  cfg_writer :: "'o config"

definition same_config :: "'o config \<Rightarrow> 'o config_reads" where
  "same_config cfg = \<lparr>cfg_session = cfg, cfg_reader = cfg, cfg_writer = cfg\<rparr>"

lemma same_config_fields [simp]:
  "cfg_session (same_config cfg) = cfg" "cfg_reader (same_config cfg) = cfg" "cfg_writer (same_config cfg) = cfg"
  by (simp_all add: same_config_def)

definition start_body :: "bool \<Rightarrow> ('v, 'o) json_ops \<Rightarrow> 'o config_reads \<Rightarrow> session \<Rightarrow> connection res" where
  "start_body has_owner J cfgs s =
     rbind (reader_body has_owner J (cfg_reader cfgs) s) (\<lambda>(r, s1).
     rbind (writer_body has_owner J (cfg_writer cfgs) s1) (\<lambda>(w, s2).
     read_packet (attach s2 r w)))"

text \<open>The constructor of the session and \<open>start\<close>, as the accept handler calls them.\<close>

abbreviation made_session :: "bool \<Rightarrow> ('v, 'o) json_ops \<Rightarrow> 'o config_reads \<Rightarrow> connection res" where
  "made_session has_owner J cfgs \<equiv>
     rbind (session_body has_owner J (cfg_session cfgs)) (start_body has_owner J cfgs)"

text \<open>
  What the socket answers to \<^verbatim>\<open>remote_endpoint(ec)\<close>: the peer, or nothing with \<open>ec\<close> set, where the
  caller gets a default endpoint. The error code is not looked at.
\<close>

record remote_answer =
  ra_default :: "string \<times> u16"
  ra_peer :: "(string \<times> u16) option"

definition get_remote_endpoint :: "remote_answer \<Rightarrow> string \<times> u16" where
  "get_remote_endpoint a = (case ra_peer a of Some ep \<Rightarrow> ep | None \<Rightarrow> ra_default a)"

definition get_remote_address :: "remote_answer \<Rightarrow> string" where
  "get_remote_address a = (let ep = get_remote_endpoint a in fst ep)"

definition get_remote_port :: "remote_answer \<Rightarrow> u16" where
  "get_remote_port a = (let ep = get_remote_endpoint a in snd ep)"

definition session_start :: "('v, 'o) json_ops \<Rightarrow> 'o config_reads \<Rightarrow> session \<Rightarrow> connection res" where
  "session_start J cfgs s = start_body False J cfgs s"

end
