(* ===== verification/Machine.thy ===== *)
theory Machine
  imports Prelude
begin

section \<open>Runs and invariants\<close>

text \<open>
  A state machine is a step relation; a run is a sequence of events. The contract of an
  invariant, which may speak of the events so far, is stated once: it holds at the start and
  every step keeps it, so it holds at the end of every run. Each component with steps interprets
  the locale on its own relation.
\<close>

inductive steps :: "('s \<Rightarrow> 'e \<Rightarrow> 's \<Rightarrow> bool) \<Rightarrow> 's \<Rightarrow> 'e list \<Rightarrow> 's \<Rightarrow> bool"
  for step :: "'s \<Rightarrow> 'e \<Rightarrow> 's \<Rightarrow> bool"
where
  steps_nil: "steps step s [] s"
| steps_snoc: "steps step s es t \<Longrightarrow> step t e u \<Longrightarrow> steps step s (es @ [e]) u"

inductive_cases steps_snocE: "steps step s (es @ [e]) u"

inductive_simps steps_Nil_iff: "steps step s [] u"

lemma steps_single: "step s e t \<Longrightarrow> steps step s [e] t"
  using steps_snoc [OF steps_nil, of step s e t] by simp

lemma steps_append: "steps step t fs u \<Longrightarrow> steps step s es t \<Longrightarrow> steps step s (es @ fs) u"
proof (induction rule: steps.induct)
  case (steps_snoc s' fs t e u)
  then show ?case using steps.steps_snoc [of step s "es @ fs"] by simp
qed simp

lemma steps_Cons: "step s e t \<Longrightarrow> steps step t es u \<Longrightarrow> steps step s (e # es) u"
  using steps_append [of step t es u s "[e]"] steps_single [of step s e t] by simp

lemma steps_ConsE:
  assumes "steps step s (e # es) u"
  obtains t where "step s e t" and "steps step t es u"
proof -
  have "\<exists>t. step s e t \<and> steps step t es u"
    using assms
  proof (induction es arbitrary: u rule: rev_induct)
    case Nil
    then have "steps step s ([] @ [e]) u" by simp
    then obtain v where "steps step s [] v" "step v e u" by (rule steps_snocE)
    then have "step s e u" by (simp add: steps_Nil_iff)
    then show ?case using steps_nil by metis
  next
    case (snoc f fs)
    then have "steps step s ((e # fs) @ [f]) u" by simp
    then obtain v where "steps step s (e # fs) v" "step v f u" by (rule steps_snocE)
    then show ?case using snoc.IH steps_snoc [of step _ fs v f u] by blast
  qed
  then show thesis using that by blast
qed

lemma steps_first: "steps step s es t \<Longrightarrow> es \<noteq> [] \<Longrightarrow> \<exists>e u. step s e u"
  by (cases es) (auto elim!: steps_ConsE)

locale safe_machine =
  fixes step :: "'s \<Rightarrow> 'e \<Rightarrow> 's \<Rightarrow> bool"
    and start :: "'s \<Rightarrow> bool"
    and inv :: "'e list \<Rightarrow> 's \<Rightarrow> bool"
  assumes inv_start: "start s \<Longrightarrow> inv [] s"
    and inv_step: "inv es s \<Longrightarrow> step s e s' \<Longrightarrow> inv (es @ [e]) s'"
begin

lemma inv_steps:
  assumes "start s" and "steps step s es t"
  shows "inv es t"
  using assms(2,1) by (induction rule: steps.induct) (auto intro: inv_start inv_step)

lemma inv_next:
  assumes "start s" and "steps step s es t" and "step t e u"
  shows "inv (es @ [e]) u"
  using inv_steps [OF assms(1,2)] assms(3) by (rule inv_step)

end

text \<open>
  A simulation: every step of one machine is matched by a sequence of steps of another, given by
  the label of the step, so that every run of the first is one of the second.
\<close>

locale simulation =
  fixes cstep :: "'c \<Rightarrow> 'e \<Rightarrow> 'c \<Rightarrow> bool"
    and astep :: "'a \<Rightarrow> 'f \<Rightarrow> 'a \<Rightarrow> bool"
    and sim :: "'c \<Rightarrow> 'a \<Rightarrow> bool"
    and label :: "'c \<Rightarrow> 'e \<Rightarrow> 'c \<Rightarrow> 'f list"
  assumes sim_step: "sim c a \<Longrightarrow> cstep c e c' \<Longrightarrow> \<exists>a'. steps astep a (label c e c') a' \<and> sim c' a'"
begin

lemma sim_steps:
  assumes "steps cstep c es c'" and "sim c a"
  shows "\<exists>fs a'. steps astep a fs a' \<and> sim c' a'"
  using assms
proof (induction rule: steps.induct)
  case (steps_nil c)
  then show ?case using steps.steps_nil [of astep a] by blast
next
  case (steps_snoc c es d e c')
  then obtain fs b where run: "steps astep a fs b" and "sim d b" by blast
  then obtain a' where "steps astep b (label d e c') a'" "sim c' a'" using sim_step steps_snoc.hyps(2) by blast
  then show ?case using steps_append [OF _ run] by blast
qed

text \<open>The trace, when the label of a step depends on its event only.\<close>

lemma sim_trace:
  assumes "steps cstep c es c'" and "sim c a" and "\<And>d e d'. label d e d' = f e"
  shows "\<exists>a'. steps astep a (concat (map f es)) a' \<and> sim c' a'"
  using assms(1,2)
proof (induction rule: steps.induct)
  case (steps_nil c)
  then show ?case using steps.steps_nil [of astep a] by auto
next
  case (steps_snoc c es d e c')
  then obtain b where run: "steps astep a (concat (map f es)) b" and "sim d b" by blast
  then obtain a' where "steps astep b (f e) a'" "sim c' a'"
    using sim_step steps_snoc.hyps(2) assms(3) by metis
  then show ?case using steps_append [OF _ run] by auto
qed

lemma sim_invariant:
  assumes "steps cstep c es c'" and "sim c a" and "\<And>fs a'. steps astep a fs a' \<Longrightarrow> P a'"
  shows "\<exists>a'. sim c' a' \<and> P a'"
  using sim_steps [OF assms(1,2)] assms(3) by blast

end

end
