(* ===== verification/Connection.thy ===== *)
theory Connection
  imports Session Machine
begin

section \<open>A connection as a state machine\<close>

text \<open>
  The events of a connection are the completions of the operations it has started, and the call
  of \<open>write_packet\<close>. Only a pending operation completes; a read that succeeds delivers exactly the
  bytes asked for; an operation on the socket is aborted only after the socket was closed, which
  is the only way the code cancels one. These are the documented properties of Boost.Asio the code
  relies on. Any order of completions is allowed.
\<close>

datatype event =
    Ev_read_length ec bytes
  | Ev_read_body nat ec bytes
  | Ev_write bytes ec
  | Ev_wait timer_id ec
  | Ev_post bytes
  | Ev_login login_request
  | Ev_write_packet bytes

fun op_of :: "event \<Rightarrow> async_op option" where
  "op_of (Ev_read_length _ _) = Some Op_read_length"
| "op_of (Ev_read_body n _ _) = Some (Op_read_body n)"
| "op_of (Ev_write b _) = Some (Op_write b)"
| "op_of (Ev_wait t _) = Some (Op_wait t)"
| "op_of (Ev_post b) = Some (Op_post b)"
| "op_of (Ev_login r) = Some (Op_login r)"
| "op_of (Ev_write_packet _) = None"

fun socket_result :: "event \<Rightarrow> ec option" where
  "socket_result (Ev_read_length err _) = Some err"
| "socket_result (Ev_read_body _ err _) = Some err"
| "socket_result (Ev_write _ err) = Some err"
| "socket_result _ = None"

fun data_fits :: "event \<Rightarrow> bool" where
  "data_fits (Ev_read_length None data) \<longleftrightarrow> length data = 4"
| "data_fits (Ev_read_body n None data) \<longleftrightarrow> length data = n"
| "data_fits _ = True"

definition enabled :: "connection \<Rightarrow> event \<Rightarrow> bool" where
  "enabled c ev \<longleftrightarrow>
     (case op_of ev of Some op \<Rightarrow> op \<in># pending c | None \<Rightarrow> alive c) \<and>
     data_fits ev \<and>
     (socket_result ev = Some (Some Operation_aborted) \<longrightarrow> \<not> sock_open c)"

fun dispatch :: "endian \<Rightarrow> archive_reader \<Rightarrow> connection \<Rightarrow> event \<Rightarrow> connection res" where
  "dispatch e D c (Ev_read_length err data) = read_length_handler e err data c"
| "dispatch e D c (Ev_read_body n err data) = read_body_handler e D err data c"
| "dispatch e D c (Ev_write b err) = write_handler err c"
| "dispatch e D c (Ev_wait Idle_timer err) = idle_timer_handler err c"
| "dispatch e D c (Ev_wait Read_timer err) = read_deadline_handler err c"
| "dispatch e D c (Ev_wait Write_timer err) = write_deadline_handler err c"
| "dispatch e D c (Ev_post b) = add_packet_posted b c"
| "dispatch e D c (Ev_login r) = Inr c"
| "dispatch e D c (Ev_write_packet b) = write_packet b c"

definition complete :: "event \<Rightarrow> connection \<Rightarrow> connection" where
  "complete ev c =
     (case op_of ev of Some op \<Rightarrow> c\<lparr>pending := pending c - {#op#}\<rparr> | None \<Rightarrow> c)"

text \<open>An exception that leaves a handler leaves \<^verbatim>\<open>io_context::run\<close> and ends the process.\<close>

definition fire :: "endian \<Rightarrow> archive_reader \<Rightarrow> connection \<Rightarrow> event \<Rightarrow> connection res" where
  "fire e D c ev = rbind (dispatch e D (complete ev c) ev) (\<lambda>c'. Inr (release c'))"

inductive conn_step :: "endian \<Rightarrow> archive_reader \<Rightarrow> connection \<Rightarrow> event \<Rightarrow> connection \<Rightarrow> bool"
  for e :: endian and D :: archive_reader
where
  conn_step: "enabled c ev \<Longrightarrow> fire e D c ev = Inr c' \<Longrightarrow> conn_step e D c ev c'"

inductive_simps conn_step_iff: "conn_step e D c ev c'"

text \<open>
  A session may also be kept alive from outside: by the accept handler that is inserting it, or by
  the server's set when it was entered there after it had stopped. \<open>held_step\<close> is the step of such a
  session: with \<open>h\<close> the owners a connection knows of need not decide whether it is destroyed.
\<close>

definition release_by :: "bool \<Rightarrow> 'a session_scheme \<Rightarrow> 'a session_scheme" where
  "release_by k s = (if k then s else release s)"

inductive held_step :: "bool \<Rightarrow> endian \<Rightarrow> archive_reader \<Rightarrow> connection \<Rightarrow> event \<Rightarrow> connection \<Rightarrow> bool"
  for h :: bool and e :: endian and D :: archive_reader
where
  held_step: "enabled c ev \<Longrightarrow> dispatch e D (complete ev c) ev = Inr c' \<Longrightarrow> k \<longrightarrow> h \<Longrightarrow>
    held_step h e D c ev (release_by k c')"

inductive_cases held_stepE: "held_step h e D c ev c'"

lemma conn_held: "conn_step e D c ev c' \<Longrightarrow> held_step h e D c ev c'"
proof -
  assume "conn_step e D c ev c'"
  then obtain c2 where "enabled c ev" "dispatch e D (complete ev c) ev = Inr c2" "c' = release_by False c2"
    by (auto simp: conn_step_iff fire_def rbind_eq_Inr release_by_def)
  then show ?thesis using held_step.held_step [of c ev e D c2 False h] by simp
qed

lemma held_conn: "held_step False e D c ev c' \<longleftrightarrow> conn_step e D c ev c'"
  by (auto simp: conn_step_iff fire_def rbind_eq_Inr release_by_def intro: conn_held elim: held_stepE)

lemma held_same: "held_step False e D = conn_step e D"
  by (intro ext) (rule held_conn)

subsection \<open>The connection the accept handler sets up\<close>

text \<open>
  \<open>establish\<close> runs the constructor of the session and \<open>start\<close> on objects with owners, and enters
  the session in the server's set. The constructors of the program have no owner yet: what that
  leads to is stated separately; the properties of the handlers are about \<open>establish\<close>.
\<close>

definition establish :: "('v, 'o) json_ops \<Rightarrow> 'o config_reads \<Rightarrow> connection res" where
  "establish J cfgs =
     rbind (session_body True J (cfg_session cfgs)) (\<lambda>s.
     rbind (start_body True J cfgs s) (\<lambda>c. Inr (c\<lparr>in_sessions := True\<rparr>)))"

definition fresh_connection :: "int \<Rightarrow> int \<Rightarrow> int \<Rightarrow> connection" where
  "fresh_connection i r w =
     \<lparr>owned = True, alive = True, sock_open = True, stopped = False, on_close_set = True,
      in_sessions = True, idle_expiry = After i, seconds_idle = i,
      pending = {#Op_wait Idle_timer, Op_wait Read_timer, Op_wait Write_timer, Op_read_length#},
      effects = [Eff_expires Idle_timer Never, Eff_expires Read_timer Never, Eff_expires Write_timer Never,
        Eff_expires Idle_timer (After i), Eff_expires Read_timer (After r)],
      conn_reader = \<lparr>rd_packet_length = 0, rd_packet_buffer = [], rd_expiry = After r, rd_seconds = r\<rparr>,
      conn_writer = \<lparr>wr_queue = [], wr_expiry = Never, wr_seconds = w\<rparr>\<rparr>"

lemmas establish_defs =
  establish_def session_body_def start_body_def reader_body_def writer_body_def check_idle_timer_def
  check_read_deadline_def check_write_deadline_def shared_from_this_def read_packet_def
  read_length_def upd_reader_def set_idle_expiry_def set_read_expiry_def emit_def use_socket_def start_op_def attach_def Let_def

lemma establish_fresh:
  "establish J cfgs = Inr c \<longleftrightarrow>
     (\<exists>i r w. get_int J (cfg_session cfgs) ''timeouts.idle_timeout_seconds'' 300 = Inr i \<and>
        get_int J (cfg_reader cfgs) ''timeouts.read_timeout_seconds'' 10 = Inr r \<and>
        get_int J (cfg_writer cfgs) ''timeouts.write_timeout_seconds'' 10 = Inr w \<and> c = fresh_connection i r w)"
proof (cases "get_int J (cfg_session cfgs) ''timeouts.idle_timeout_seconds'' 300")
  case idle: (Inr i)
  show ?thesis
  proof (cases "get_int J (cfg_reader cfgs) ''timeouts.read_timeout_seconds'' 10")
    case read: (Inr r)
    show ?thesis
    proof (cases "get_int J (cfg_writer cfgs) ''timeouts.write_timeout_seconds'' 10")
      case (Inr w)
      have "{#Op_wait Idle_timer, Op_wait Read_timer, Op_wait Write_timer, Op_read_length#} =
          {#Op_read_length, Op_wait Write_timer, Op_wait Read_timer, Op_wait Idle_timer#}"
        by simp
      with idle read Inr show ?thesis by (auto simp: establish_defs fresh_connection_def)
    qed (simp add: establish_defs idle read)
  qed (simp add: establish_defs idle)
qed (simp add: establish_defs)

definition fresh :: "connection \<Rightarrow> bool" where
  "fresh c \<longleftrightarrow> (\<exists>i r w. c = fresh_connection i r w)"

end
