(* ===== verification/Connection_Inv.thy ===== *)
theory Connection_Inv
  imports Connection Packet_Props
begin

section \<open>Invariants of a connection\<close>

text \<open>
  What holds after any run from an established connection: who owns the session and whether it
  exists (\<open>life_ok\<close>), one wait per timer (\<open>timers_ok\<close>), one read at a time and what its buffer
  holds (\<open>read_ok\<close>), one write at a time, of the front of the queue (\<open>write_ok\<close>).
\<close>

named_theorems handler_outcome \<open>what each handler returns on an owned session\<close>

subsection \<open>The elementary updates\<close>

lemma start_op_fields [simp]:
  fixes c :: connection
  shows "owned (start_op x c) = owned c" "alive (start_op x c) = alive c"
  "sock_open (start_op x c) = sock_open c" "stopped (start_op x c) = stopped c"
  "on_close_set (start_op x c) = on_close_set c" "in_sessions (start_op x c) = in_sessions c"
  "idle_expiry (start_op x c) = idle_expiry c" "seconds_idle (start_op x c) = seconds_idle c"
  "effects (start_op x c) = effects c" "pending (start_op x c) = add_mset x (pending c)"
  "conn_reader (start_op x c) = conn_reader c" "conn_writer (start_op x c) = conn_writer c"
  by (simp_all add: start_op_def)

lemma emit_fields [simp]:
  fixes c :: connection
  shows "owned (emit x c) = owned c" "alive (emit x c) = alive c"
  "sock_open (emit x c) = sock_open c" "stopped (emit x c) = stopped c"
  "on_close_set (emit x c) = on_close_set c" "in_sessions (emit x c) = in_sessions c"
  "idle_expiry (emit x c) = idle_expiry c" "seconds_idle (emit x c) = seconds_idle c"
  "effects (emit x c) = effects c @ [x]" "pending (emit x c) = pending c"
  "conn_reader (emit x c) = conn_reader c" "conn_writer (emit x c) = conn_writer c"
  by (simp_all add: emit_def)

lemma upd_reader_fields [simp]:
  "owned (upd_reader f c) = owned c" "alive (upd_reader f c) = alive c"
  "sock_open (upd_reader f c) = sock_open c" "stopped (upd_reader f c) = stopped c"
  "on_close_set (upd_reader f c) = on_close_set c" "in_sessions (upd_reader f c) = in_sessions c"
  "idle_expiry (upd_reader f c) = idle_expiry c" "seconds_idle (upd_reader f c) = seconds_idle c"
  "effects (upd_reader f c) = effects c" "pending (upd_reader f c) = pending c"
  "conn_reader (upd_reader f c) = f (conn_reader c)" "conn_writer (upd_reader f c) = conn_writer c"
  by (simp_all add: upd_reader_def)

lemma upd_writer_fields [simp]:
  "owned (upd_writer f c) = owned c" "alive (upd_writer f c) = alive c"
  "sock_open (upd_writer f c) = sock_open c" "stopped (upd_writer f c) = stopped c"
  "on_close_set (upd_writer f c) = on_close_set c" "in_sessions (upd_writer f c) = in_sessions c"
  "idle_expiry (upd_writer f c) = idle_expiry c" "seconds_idle (upd_writer f c) = seconds_idle c"
  "effects (upd_writer f c) = effects c" "pending (upd_writer f c) = pending c"
  "conn_reader (upd_writer f c) = conn_reader c" "conn_writer (upd_writer f c) = f (conn_writer c)"
  by (simp_all add: upd_writer_def)

lemma expiry_fields [simp]:
  "owned (set_idle_expiry x c) = owned c" "alive (set_idle_expiry x c) = alive c"
  "sock_open (set_idle_expiry x c) = sock_open c" "stopped (set_idle_expiry x c) = stopped c"
  "on_close_set (set_idle_expiry x c) = on_close_set c" "in_sessions (set_idle_expiry x c) = in_sessions c"
  "idle_expiry (set_idle_expiry x c) = x" "seconds_idle (set_idle_expiry x c) = seconds_idle c"
  "effects (set_idle_expiry x c) = effects c @ [Eff_expires Idle_timer x]"
  "pending (set_idle_expiry x c) = pending c"
  by (simp_all add: set_idle_expiry_def emit_def)

lemma expiry_parts [simp]:
  "conn_reader (set_idle_expiry x (c::connection)) = conn_reader c"
  "conn_writer (set_idle_expiry x (c::connection)) = conn_writer c"
  by (simp_all add: set_idle_expiry_def)

lemma set_read_expiry_fields [simp]:
  "owned (set_read_expiry x c) = owned c" "alive (set_read_expiry x c) = alive c"
  "sock_open (set_read_expiry x c) = sock_open c" "stopped (set_read_expiry x c) = stopped c"
  "on_close_set (set_read_expiry x c) = on_close_set c" "in_sessions (set_read_expiry x c) = in_sessions c"
  "idle_expiry (set_read_expiry x c) = idle_expiry c" "seconds_idle (set_read_expiry x c) = seconds_idle c"
  "effects (set_read_expiry x c) = effects c @ [Eff_expires Read_timer x]"
  "pending (set_read_expiry x c) = pending c"
  "conn_reader (set_read_expiry x c) = (conn_reader c)\<lparr>rd_expiry := x\<rparr>"
  "conn_writer (set_read_expiry x c) = conn_writer c"
  by (simp_all add: set_read_expiry_def)

lemma set_write_expiry_fields [simp]:
  "owned (set_write_expiry x c) = owned c" "alive (set_write_expiry x c) = alive c"
  "sock_open (set_write_expiry x c) = sock_open c" "stopped (set_write_expiry x c) = stopped c"
  "on_close_set (set_write_expiry x c) = on_close_set c" "in_sessions (set_write_expiry x c) = in_sessions c"
  "idle_expiry (set_write_expiry x c) = idle_expiry c" "seconds_idle (set_write_expiry x c) = seconds_idle c"
  "effects (set_write_expiry x c) = effects c @ [Eff_expires Write_timer x]"
  "pending (set_write_expiry x c) = pending c"
  "conn_reader (set_write_expiry x c) = conn_reader c"
  "conn_writer (set_write_expiry x c) = (conn_writer c)\<lparr>wr_expiry := x\<rparr>"
  by (simp_all add: set_write_expiry_def)

text \<open>Stopping, as a total function on an owned session.\<close>

definition stop_conn :: "connection \<Rightarrow> connection" where
  "stop_conn c =
     (if stopped c then c
      else c\<lparr>stopped := True, sock_open := False, in_sessions := False,
             effects := effects c @ [Eff_close, Eff_cancel Idle_timer, Eff_on_close]\<rparr>)"

lemma session_stop_owned:
  "owned c \<Longrightarrow> on_close_set c \<Longrightarrow> session_stop c = Inr (stop_conn c)"
  by (simp add: session_stop_def stop_conn_def session_on_close_def emit_def shared_from_this_def)

lemma stop_conn_fields [simp]:
  "owned (stop_conn c) = owned c" "alive (stop_conn c) = alive c" "stopped (stop_conn c)"
  "on_close_set (stop_conn c) = on_close_set c" "pending (stop_conn c) = pending c"
  "conn_reader (stop_conn c) = conn_reader c" "conn_writer (stop_conn c) = conn_writer c"
  "idle_expiry (stop_conn c) = idle_expiry c" "seconds_idle (stop_conn c) = seconds_idle c"
  by (simp_all add: stop_conn_def)

lemma release_fields [simp]:
  "owned (release c) = owned c" "stopped (release c) = stopped c"
  "on_close_set (release c) = on_close_set c" "pending (release c) = pending c"
  "conn_reader (release c) = conn_reader c" "conn_writer (release c) = conn_writer c"
  "idle_expiry (release c) = idle_expiry c" "seconds_idle (release c) = seconds_idle c"
  "effects (release c) = effects c" "in_sessions (release c) = in_sessions c"
  by (simp_all add: release_def)

lemma release_open: "sock_open (release c) \<Longrightarrow> sock_open c"
  by (simp add: release_def split: if_splits)

lemma release_by_fields [simp]:
  "owned (release_by k c) = owned c" "stopped (release_by k c) = stopped c"
  "on_close_set (release_by k c) = on_close_set c" "pending (release_by k c) = pending c"
  "conn_reader (release_by k c) = conn_reader c" "conn_writer (release_by k c) = conn_writer c"
  "idle_expiry (release_by k c) = idle_expiry c" "seconds_idle (release_by k c) = seconds_idle c"
  "effects (release_by k c) = effects c" "in_sessions (release_by k c) = in_sessions c"
  by (simp_all add: release_by_def)

lemma release_by_open: "sock_open (release_by k c) \<Longrightarrow> sock_open c"
  by (auto simp: release_by_def dest: release_open split: if_splits)

lemma complete_fields [simp]:
  "owned (complete ev c) = owned c" "alive (complete ev c) = alive c" "sock_open (complete ev c) = sock_open c"
  "stopped (complete ev c) = stopped c" "on_close_set (complete ev c) = on_close_set c"
  "in_sessions (complete ev c) = in_sessions c" "idle_expiry (complete ev c) = idle_expiry c"
  "seconds_idle (complete ev c) = seconds_idle c" "effects (complete ev c) = effects c"
  "conn_reader (complete ev c) = conn_reader c" "conn_writer (complete ev c) = conn_writer c"
  by (simp_all add: complete_def split: option.splits)

text \<open>No received packet reaches the login handler.\<close>

lemma route_received: "packet_from_bytes e buf = Inr p \<Longrightarrow> route D s p = Inr s"
  using received_wire_types [of e buf p] by (auto simp: route_def wire_packet_types_def)

lemma on_packet_received:
  "on_packet e D buf c =
     (case packet_from_bytes e buf of Inl x \<Rightarrow> Inl x | Inr p \<Rightarrow> Inr (emit (Eff_deliver buf) c))"
  by (auto simp: on_packet_def route_received split: sum.splits)

subsection \<open>What each handler returns\<close>

definition begin_length :: "connection \<Rightarrow> connection" where
  "begin_length c = start_op Op_read_length (set_read_expiry (After (rd_seconds (conn_reader c))) c)"

definition body_buffer :: "u32 \<Rightarrow> bytes \<Rightarrow> bytes" where
  "body_buffer n buf = be_bytes 4 (unat n) @ drop 4 (vector_resize (unat n + 4) buf)"

definition begin_body :: "u32 \<Rightarrow> connection \<Rightarrow> connection" where
  "begin_body n c =
     start_op (Op_read_body (unat n))
       (upd_reader (\<lambda>r. r\<lparr>rd_packet_length := n, rd_packet_buffer := body_buffer n (rd_packet_buffer r)\<rparr>)
         (set_read_expiry (After (rd_seconds (conn_reader c))) c))"

definition begin_write :: "bytes \<Rightarrow> connection \<Rightarrow> connection" where
  "begin_write b c =
     start_op (Op_write b) (emit (Eff_write b) (set_write_expiry (After (wr_seconds (conn_writer c))) c))"

lemma length_body_buffer [simp]: "length (body_buffer n buf) = unat n + 4"
  by (simp add: body_buffer_def)

lemma take_body_buffer: "take 4 (body_buffer n buf) = be_bytes 4 (unat n)"
  by (simp add: body_buffer_def)

lemma upd_reader_upd_reader: "upd_reader f (upd_reader g c) = upd_reader (\<lambda>r. f (g r)) c"
  by (simp add: upd_reader_def)

lemma upd_writer_upd_writer: "upd_writer f (upd_writer g c) = upd_writer (\<lambda>w. f (g w)) c"
  by (simp add: upd_writer_def)

lemma read_length_outcome [handler_outcome]: "alive c \<Longrightarrow> read_length c = Inr (begin_length c)"
  by (simp add: read_length_def use_socket_def begin_length_def)

lemma read_body_outcome:
  assumes "alive c" and "rd_packet_length (conn_reader c) \<le> MAX_PACKET_SIZE"
  shows "read_body e c = Inr (begin_body (rd_packet_length (conn_reader c)) c)"
proof -
  let ?n = "rd_packet_length (conn_reader c)"
  have n: "unat (?n + PACKET_LENGTH) = unat ?n + 4"
    using assms(2) by (simp add: unat_word_ariths PACKET_LENGTH_def word_le_nat_alt)
  show ?thesis
    using assms(1)
    by (simp add: read_body_def Let_def n use_socket_def begin_body_def body_buffer_def
        store_htonl upd_reader_upd_reader upd_reader_def start_op_def)
qed

lemma read_length_handler_outcome [handler_outcome]:
  assumes "owned c" and "on_close_set c" and "alive c"
  shows "read_length_handler e err data c =
    (if \<not> sock_open c then Inr c
     else case err of
       None \<Rightarrow> let n = ntohl e (load_u32 e data) in
         if n > MAX_PACKET_SIZE then Inr (stop_conn (upd_reader (\<lambda>r. r\<lparr>rd_packet_length := n\<rparr>) c))
         else Inr (begin_body n c)
     | Some x \<Rightarrow> Inr (if x \<noteq> Operation_aborted then stop_conn c else c))"
proof -
  let ?n = "ntohl e (load_u32 e data)" and ?c = "upd_reader (\<lambda>r. r\<lparr>rd_packet_length := ntohl e (load_u32 e data)\<rparr>) c"
  have "begin_body ?n ?c = begin_body ?n c"
    by (simp add: begin_body_def upd_reader_def)
  moreover have "\<not> MAX_PACKET_SIZE < ?n \<Longrightarrow> read_body e ?c = Inr (begin_body ?n ?c)"
    using read_body_outcome [of ?c e] assms(3) by simp
  ultimately show ?thesis
    using assms
    by (simp add: read_length_handler_def use_socket_def with_session_def session_stop_owned Let_def
        split: option.splits)
qed

lemma read_body_handler_outcome [handler_outcome]:
  assumes "owned c" and "on_close_set c" and "alive c"
  shows "read_body_handler e D err data c =
    (if \<not> sock_open c then Inr c
     else case err of
       None \<Rightarrow> rbind (mem_write (rd_packet_buffer (conn_reader c)) 4 data) (\<lambda>buf.
         rbind (packet_from_bytes e buf) (\<lambda>p.
           Inr (begin_length (emit (Eff_deliver buf) (upd_reader (\<lambda>r. r\<lparr>rd_packet_buffer := []\<rparr>) c)))))
     | Some x \<Rightarrow> Inr (if x \<noteq> Operation_aborted then stop_conn c else c))"
  using assms
  by (auto simp: read_body_handler_def use_socket_def session_stop_owned Let_def on_packet_received
      read_length_outcome PACKET_LENGTH_def upd_reader_def emit_def begin_length_def rbind_def
      split: option.splits sum.splits)

lemma writer_write_outcome:
  "alive c \<Longrightarrow> wr_queue (conn_writer c) = b # q \<Longrightarrow> writer_write c = Inr (begin_write b c)"
  by (simp add: writer_write_def use_socket_def begin_write_def)

lemma add_packet_posted_outcome [handler_outcome]:
  "add_packet_posted b c =
     (let c1 = upd_writer (\<lambda>w. w\<lparr>wr_queue := wr_queue w @ [b]\<rparr>) c in
      if wr_queue (conn_writer c) = []
      then (if alive c then Inr (begin_write b c1)
            else Inl (Undefined_behaviour ''socket of a destroyed session''))
      else Inr c1)"
  using writer_write_outcome [of "upd_writer (\<lambda>w. w\<lparr>wr_queue := wr_queue w @ [b]\<rparr>) c" b "[]"]
  by (simp add: add_packet_posted_def Let_def writer_write_def use_socket_def)

lemma write_handler_outcome [handler_outcome]:
  assumes "owned c" and "on_close_set c" and "alive c"
  shows "write_handler err c =
    (if \<not> sock_open c then Inr c
     else case err of
       None \<Rightarrow> (case wr_queue (conn_writer c) of
           [] \<Rightarrow> Inl (Undefined_behaviour ''pop of an empty queue'')
         | _ # [] \<Rightarrow> Inr (set_write_expiry Never (upd_writer (\<lambda>w. w\<lparr>wr_queue := []\<rparr>) c))
         | _ # b # q \<Rightarrow> Inr (begin_write b (upd_writer (\<lambda>w. w\<lparr>wr_queue := b # q\<rparr>) c)))
     | Some x \<Rightarrow> Inr (if x \<noteq> Operation_aborted then stop_conn c else c))"
  using assms
  by (simp add: write_handler_def use_socket_def with_session_def session_stop_owned pop_front_def
      writer_write_outcome upd_writer_upd_writer split: option.splits list.splits)

lemma timer_handler_outcome [handler_outcome]:
  assumes "owned c" and "on_close_set c"
  shows "read_deadline_handler err c = Inr (if err = Some Operation_aborted
      then start_op (Op_wait Read_timer) c else if alive c then stop_conn c else c)"
    and "write_deadline_handler err c = Inr (if err = Some Operation_aborted
      then start_op (Op_wait Write_timer) c else if alive c then stop_conn c else c)"
    and "idle_timer_handler err c = Inr (if err = Some Operation_aborted
      then start_op (Op_wait Idle_timer) c else stop_conn c)"
  using assms
  by (simp_all add: read_deadline_handler_def write_deadline_handler_def idle_timer_handler_def
      check_read_deadline_def check_write_deadline_def check_idle_timer_def shared_from_this_def
      with_session_def session_stop_owned)

lemma write_packet_outcome [handler_outcome]:
  "alive c \<Longrightarrow> write_packet b c = Inr (start_op (Op_post b) (set_idle_expiry (After (seconds_idle c)) c))"
  by (simp add: write_packet_def add_packet_def use_socket_def)

lemma dead_session_outcome [handler_outcome]:
  assumes "\<not> alive c"
  shows "read_length_handler e err data c = Inl (Undefined_behaviour ''socket of a destroyed session'')"
    and "read_body_handler e D err data c = Inl (Undefined_behaviour ''socket of a destroyed session'')"
    and "write_handler err c = Inl (Undefined_behaviour ''socket of a destroyed session'')"
    and "write_packet b c = Inl (Undefined_behaviour ''socket of a destroyed session'')"
  using assms by (simp_all add: read_length_handler_def read_body_handler_def write_handler_def
      write_packet_def add_packet_def use_socket_def)

lemma conn_stepE:
  assumes "conn_step e D c ev c'"
  obtains c2 where "enabled c ev" and "dispatch e D (complete ev c) ev = Inr c2" and "c' = release c2"
  using assms by (auto simp: conn_step_iff fire_def rbind_eq_Inr)

subsection \<open>Lifetime\<close>

definition life_ok :: "connection \<Rightarrow> bool" where
  "life_ok c \<longleftrightarrow>
     owned c \<and> on_close_set c \<and> (sock_open c \<longleftrightarrow> \<not> stopped c) \<and>
     (\<not> stopped c \<longrightarrow> in_sessions c \<and> alive c) \<and>
     (stopped c \<longrightarrow> \<not> in_sessions c) \<and>
     count_list (effects c) Eff_on_close = (if stopped c then 1 else 0) \<and>
     (\<forall>r. Op_login r \<notin># pending c)"

lemma life_ok_owned: "life_ok c \<Longrightarrow> owned c \<and> on_close_set c"
  by (simp add: life_ok_def)

lemma life_ok_updates [simp]:
  "life_ok (start_op x c) \<longleftrightarrow> life_ok c \<and> (\<forall>r. x \<noteq> Op_login r)"
  "life_ok (upd_reader f c) \<longleftrightarrow> life_ok c"
  "life_ok (upd_writer g c) \<longleftrightarrow> life_ok c"
  "y \<noteq> Eff_on_close \<Longrightarrow> life_ok (emit y c) \<longleftrightarrow> life_ok c"
  "life_ok (begin_length c) \<longleftrightarrow> life_ok c"
  "life_ok (begin_body n c) \<longleftrightarrow> life_ok c"
  "life_ok (begin_write b c) \<longleftrightarrow> life_ok c"
  "life_ok (set_idle_expiry z c) \<longleftrightarrow> life_ok c" "life_ok (set_read_expiry z c) \<longleftrightarrow> life_ok c"
  "life_ok (set_write_expiry z c) \<longleftrightarrow> life_ok c"
  by (auto simp: life_ok_def begin_length_def begin_body_def begin_write_def)

lemma life_ok_stop: "life_ok c \<Longrightarrow> life_ok (stop_conn c)"
  by (auto simp: life_ok_def stop_conn_def)

lemma life_ok_complete: "life_ok c \<Longrightarrow> life_ok (complete ev c)"
  by (auto simp: life_ok_def complete_def split: option.splits dest: in_diffD)

lemma life_ok_release: "life_ok c \<Longrightarrow> life_ok (release c)"
  by (auto simp: life_ok_def release_def held_def)

lemma life_ok_release_by: "life_ok c \<Longrightarrow> life_ok (release_by k c)"
  by (simp add: release_by_def life_ok_release)

lemma dispatch_life:
  assumes "life_ok c" and "dispatch e D c ev = Inr c'"
  shows "life_ok c'"
proof -
  note o = life_ok_owned [OF assms(1)]
  show ?thesis
  proof (cases "alive c")
    case True
    then show ?thesis using assms o
      by (cases "(e, D, c, ev)" rule: dispatch.cases)
        (auto simp: handler_outcome rbind_eq_Inr Let_def life_ok_stop
          split: if_splits option.splits list.splits sum.splits)
  next
    case False
    then show ?thesis using assms o
      by (cases "(e, D, c, ev)" rule: dispatch.cases)
        (auto simp: handler_outcome Let_def life_ok_stop split: if_splits)
  qed
qed

lemma life_step: "life_ok c \<Longrightarrow> held_step h e D c ev c' \<Longrightarrow> life_ok c'"
  by (elim held_stepE) (auto intro: life_ok_release_by dispatch_life life_ok_complete)

lemma life_fresh: "fresh c \<Longrightarrow> life_ok c"
  by (auto simp: fresh_def fresh_connection_def life_ok_def)

subsection \<open>The contract of a deadline handler\<close>

text \<open>
  The completion handlers of the three timers share a contract: an aborted wait is started again,
  any other stops the session.
\<close>

locale deadline_handler =
  fixes t :: timer_id
    and handler :: "ec \<Rightarrow> connection \<Rightarrow> connection res"
  assumes aborted: "life_ok c \<Longrightarrow> handler (Some Operation_aborted) c = Inr (start_op (Op_wait t) c)"
    and completed: "life_ok c \<Longrightarrow> alive c \<Longrightarrow> err \<noteq> Some Operation_aborted \<Longrightarrow> handler err c = Inr (stop_conn c)"
begin

lemma again:
  assumes "life_ok c" and "Op_wait t \<in># pending c"
  shows "handler (Some Operation_aborted) (c\<lparr>pending := pending c - {#Op_wait t#}\<rparr>) = Inr c"
proof -
  have "life_ok (c\<lparr>pending := pending c - {#Op_wait t#}\<rparr>)"
    using assms(1) by (auto simp: life_ok_def dest: in_diffD)
  then show ?thesis using assms(2) by (simp add: aborted start_op_def)
qed

lemma closes:
  assumes "life_ok c" and "sock_open c" and "err \<noteq> Some Operation_aborted"
  shows "\<exists>c'. handler err c = Inr c' \<and> life_ok c' \<and> stopped c' \<and> \<not> sock_open c'"
proof -
  have "alive c" "\<not> stopped c" using assms(1,2) by (simp_all add: life_ok_def)
  then show ?thesis using assms life_ok_stop [OF assms(1)] by (simp add: completed stop_conn_def)
qed

end

fun timer_handler :: "timer_id \<Rightarrow> ec \<Rightarrow> connection \<Rightarrow> connection res" where
  "timer_handler Idle_timer = idle_timer_handler"
| "timer_handler Read_timer = read_deadline_handler"
| "timer_handler Write_timer = write_deadline_handler"

lemma dispatch_wait: "dispatch e D c (Ev_wait t err) = timer_handler t err c"
  by (cases t) simp_all

interpretation timer: deadline_handler t "timer_handler t" for t
proof
  show "life_ok c \<Longrightarrow> timer_handler t (Some Operation_aborted) c = Inr (start_op (Op_wait t) c)" for c
    using life_ok_owned [of c] by (cases t) (simp_all add: timer_handler_outcome)
  show "life_ok c \<Longrightarrow> alive c \<Longrightarrow> err \<noteq> Some Operation_aborted \<Longrightarrow> timer_handler t err c = Inr (stop_conn c)" for c err
    using life_ok_owned [of c] by (cases t) (simp_all add: timer_handler_outcome)
qed

end
