(* ===== verification/Framing.thy ===== *)
theory Framing
  imports Packet_Spec
begin

section \<open>Length-prefixed frames\<close>

text \<open>
  The format the reader expects of the byte stream of a connection: four bytes of length in
  network order, at most \<open>MAX_PACKET_SIZE\<close>, then that many bytes. The length does not count the
  four bytes themselves.
\<close>

definition frame_encode :: "bytes \<Rightarrow> bytes" where
  "frame_encode body = be_bytes 4 (length body) @ body"

definition frame_valid :: "bytes \<Rightarrow> bool" where
  "frame_valid body \<longleftrightarrow> length body \<le> 1049600"

definition frame_decode :: "bytes \<Rightarrow> (bytes \<times> bytes) option" where
  "frame_decode bs =
     (if length bs < 4 then None
      else let n = be_val (take 4 bs) in
        if 1049600 < n \<or> length bs < 4 + n then None
        else Some (take n (drop 4 bs), drop (4 + n) bs))"

lemma be_val_be_bytes: "n < 4294967296 \<Longrightarrow> be_val (be_bytes 4 n) = n"
  by (simp add: load_store)

lemma frame_decode_sound:
  assumes "frame_decode bs = Some (body, rest)"
  shows "frame_valid body \<and> bs = frame_encode body @ rest"
proof -
  let ?n = "be_val (take 4 bs)"
  have l: "4 \<le> length bs" "?n \<le> 1049600" "4 + ?n \<le> length bs"
    and body: "body = take ?n (drop 4 bs)" and rest: "rest = drop (4 + ?n) bs"
    using assms by (auto simp: frame_decode_def Let_def split: if_splits)
  have n: "length body = ?n" using l body by simp
  have "be_bytes 4 ?n = take 4 bs" using l by (simp add: store_load)
  moreover have "drop 4 bs = body @ rest"
    using append_take_drop_id [of ?n "drop 4 bs"] by (simp add: body rest add.commute)
  ultimately have "frame_encode body @ rest = bs"
    using append_take_drop_id [of 4 bs] by (simp add: frame_encode_def n)
  then show ?thesis using l n by (simp add: frame_valid_def)
qed

interpretation frames: self_delimiting frame_encode frame_decode frame_valid
proof
  show "frame_valid x \<Longrightarrow> frame_decode (frame_encode x @ rest) = Some (x, rest)" for x rest
    by (simp add: frame_decode_def frame_encode_def frame_valid_def be_val_be_bytes)
  show "frame_decode bs = Some (x, rest) \<Longrightarrow> frame_valid x \<and> bs = frame_encode x @ rest" for bs x rest
    by (rule frame_decode_sound)
  show "frame_valid x \<Longrightarrow> frame_encode x \<noteq> []" for x
    by (auto simp: frame_encode_def dest: arg_cong [where f = length])
qed

lemma frame_decode_incomplete:
  "n \<le> 1049600 \<Longrightarrow> length body < n \<Longrightarrow> frame_decode (be_bytes 4 n @ body) = None"
  by (simp add: frame_decode_def be_val_be_bytes)

lemma frame_decode_short: "length bs < 4 \<Longrightarrow> frame_decode bs = None"
  by (simp add: frame_decode_def)

end
