(* ===== verification/Connection_Runs.thy ===== *)
theory Connection_Runs
  imports Connection_Inv Framing
begin

section \<open>Runs of a connection\<close>

text \<open>
  The pending operations sorted into waits, reads and writes; how each step changes them; and the
  invariants over whole runs: what was received is what was delivered, what was posted is what
  was written, and the session outlives its operations until its idle timer expires.
\<close>

subsection \<open>Waits\<close>

fun is_wait :: "async_op \<Rightarrow> bool" where
  "is_wait (Op_wait _) = True"
| "is_wait _ = False"

fun is_read :: "async_op \<Rightarrow> bool" where
  "is_read Op_read_length = True"
| "is_read (Op_read_body _) = True"
| "is_read _ = False"

fun is_write :: "async_op \<Rightarrow> bool" where
  "is_write (Op_write _) = True"
| "is_write _ = False"

definition waits :: "connection \<Rightarrow> async_op multiset" where
  "waits c = filter_mset is_wait (pending c)"

definition reads :: "connection \<Rightarrow> async_op multiset" where
  "reads c = filter_mset is_read (pending c)"

definition writes :: "connection \<Rightarrow> async_op multiset" where
  "writes c = filter_mset is_write (pending c)"

lemmas sorted_ops = waits_def reads_def writes_def

lemma sorted_ops_updates [simp]:
  "waits (upd_reader f c) = waits c" "reads (upd_reader f c) = reads c" "writes (upd_reader f c) = writes c"
  "waits (upd_writer g c) = waits c" "reads (upd_writer g c) = reads c" "writes (upd_writer g c) = writes c"
  "waits (emit y c) = waits c" "reads (emit y c) = reads c" "writes (emit y c) = writes c"
  "waits (stop_conn c) = waits c" "reads (stop_conn c) = reads c" "writes (stop_conn c) = writes c"
  "waits (release c) = waits c" "reads (release c) = reads c" "writes (release c) = writes c"
  "waits (release_by k c) = waits c" "reads (release_by k c) = reads c" "writes (release_by k c) = writes c"
  "waits (set_idle_expiry z c) = waits c" "reads (set_idle_expiry z c) = reads c"
  "writes (set_idle_expiry z c) = writes c"
  "waits (set_read_expiry z c) = waits c" "reads (set_read_expiry z c) = reads c"
  "writes (set_read_expiry z c) = writes c"
  "waits (set_write_expiry z c) = waits c" "reads (set_write_expiry z c) = reads c"
  "writes (set_write_expiry z c) = writes c"
  "waits (start_op x c) = (if is_wait x then add_mset x (waits c) else waits c)"
  "reads (start_op x c) = (if is_read x then add_mset x (reads c) else reads c)"
  "writes (start_op x c) = (if is_write x then add_mset x (writes c) else writes c)"
  "waits (begin_length c) = waits c" "reads (begin_length c) = add_mset Op_read_length (reads c)"
  "writes (begin_length c) = writes c"
  "waits (begin_body n c) = waits c" "reads (begin_body n c) = add_mset (Op_read_body (unat n)) (reads c)"
  "writes (begin_body n c) = writes c"
  "waits (begin_write b c) = waits c" "reads (begin_write b c) = reads c"
  "writes (begin_write b c) = add_mset (Op_write b) (writes c)"
  by (simp_all add: sorted_ops begin_length_def begin_body_def begin_write_def)

lemma sorted_ops_complete:
  "waits (complete ev c) = waits c - (case ev of Ev_wait t _ \<Rightarrow> {#Op_wait t#} | _ \<Rightarrow> {#})"
  "reads (complete ev c) = reads c - (case ev of Ev_read_length _ _ \<Rightarrow> {#Op_read_length#}
      | Ev_read_body n _ _ \<Rightarrow> {#Op_read_body n#} | _ \<Rightarrow> {#})"
  "writes (complete ev c) = writes c - (case ev of Ev_write b _ \<Rightarrow> {#Op_write b#} | _ \<Rightarrow> {#})"
  by (cases ev; simp add: sorted_ops complete_def)+

lemma enabled_op: "enabled c ev \<Longrightarrow> op_of ev = Some x \<Longrightarrow> x \<in># pending c"
  by (simp add: enabled_def)

lemma enabled_sorted:
  "enabled c (Ev_wait t err) \<Longrightarrow> Op_wait t \<in># waits c"
  "enabled c (Ev_read_length err d) \<Longrightarrow> Op_read_length \<in># reads c"
  "enabled c (Ev_read_body n err d) \<Longrightarrow> Op_read_body n \<in># reads c"
  "enabled c (Ev_write b err) \<Longrightarrow> Op_write b \<in># writes c"
  by (simp_all add: sorted_ops enabled_def)

lemma dispatch_waits:
  assumes "life_ok c" and "dispatch e D c ev = Inr c'"
  shows "waits c' = waits c + (case ev of Ev_wait t (Some Operation_aborted) \<Rightarrow> {#Op_wait t#} | _ \<Rightarrow> {#})"
  using assms life_ok_owned [OF assms(1)]
  by (cases "alive c"; cases "(e, D, c, ev)" rule: dispatch.cases)
    (auto simp: handler_outcome rbind_eq_Inr Let_def
      split: if_splits option.splits list.splits asio_error.splits)

lemma waits_step:
  assumes "life_ok c" and "held_step h e D c ev c'"
  shows "waits c' = (case ev of
      Ev_wait t err \<Rightarrow> if err = Some Operation_aborted then waits c else waits c - {#Op_wait t#}
    | _ \<Rightarrow> waits c)"
proof -
  obtain c2 k where en: "enabled c ev" and d: "dispatch e D (complete ev c) ev = Inr c2" and c': "c' = release_by k c2"
    using assms(2) by (rule held_stepE)
  have w: "waits c' = waits (complete ev c) +
      (case ev of Ev_wait t (Some Operation_aborted) \<Rightarrow> {#Op_wait t#} | _ \<Rightarrow> {#})"
    using dispatch_waits [OF life_ok_complete [OF assms(1)] d] c' by simp
  show ?thesis
    using w enabled_sorted(1) [of c] en
    by (cases ev) (auto simp: sorted_ops_complete split: option.splits asio_error.splits)
qed

subsection \<open>Reads\<close>

definition read_ok :: "connection \<Rightarrow> bool" where
  "read_ok c \<longleftrightarrow>
     (reads c = {#} \<and> \<not> sock_open c) \<or> reads c = {#Op_read_length#} \<or>
     (reads c = {#Op_read_body (unat (rd_packet_length (conn_reader c)))#} \<and>
      rd_packet_length (conn_reader c) \<le> MAX_PACKET_SIZE \<and>
      length (rd_packet_buffer (conn_reader c)) = unat (rd_packet_length (conn_reader c)) + 4 \<and>
      take 4 (rd_packet_buffer (conn_reader c)) = be_bytes 4 (unat (rd_packet_length (conn_reader c))))"

text \<open>The bytes of the packet being read that were received already.\<close>

definition partial_packet :: "connection \<Rightarrow> bytes" where
  "partial_packet c =
     (if reads c = {#Op_read_length#} then [] else be_bytes 4 (unat (rd_packet_length (conn_reader c))))"

fun received_by :: "event \<Rightarrow> bytes" where
  "received_by (Ev_read_length None data) = data"
| "received_by (Ev_read_body _ None data) = data"
| "received_by _ = []"

definition received :: "event list \<Rightarrow> bytes" where
  "received es = concat (map received_by es)"

fun delivered_by :: "sync_effect \<Rightarrow> bytes list" where
  "delivered_by (Eff_deliver b) = [b]"
| "delivered_by _ = []"

definition delivered :: "connection \<Rightarrow> bytes list" where
  "delivered c = concat (map delivered_by (effects c))"

lemma delivered_updates [simp]:
  "delivered (upd_reader f c) = delivered c" "delivered (upd_writer g c) = delivered c"
  "delivered (start_op x c) = delivered c" "delivered (release c) = delivered c"
  "delivered (release_by k c) = delivered c"
  "delivered (set_idle_expiry z c) = delivered c" "delivered (set_read_expiry z c) = delivered c"
  "delivered (set_write_expiry z c) = delivered c" "delivered (complete ev c) = delivered c"
  "delivered (emit y c) = delivered c @ delivered_by y"
  "delivered (stop_conn c) = delivered c" "delivered (begin_length c) = delivered c"
  "delivered (begin_body n c) = delivered c" "delivered (begin_write b c) = delivered c"
  by (simp_all add: delivered_def stop_conn_def begin_length_def begin_body_def begin_write_def)


fun is_read_event :: "event \<Rightarrow> bool" where
  "is_read_event (Ev_read_length _ _) = True"
| "is_read_event (Ev_read_body _ _ _) = True"
| "is_read_event _ = False"

lemma upd_same_reader [simp]:
  "conn_reader (stop_conn c) = conn_reader c" "conn_reader (begin_write b c) = conn_reader c"
  by (simp_all add: begin_write_def)

lemma sock_open_updates [simp]:
  "sock_open (stop_conn c) \<longleftrightarrow> sock_open c \<and> stopped c" "sock_open (begin_write b c) = sock_open c"
  "sock_open (begin_length c) = sock_open c" "sock_open (begin_body n c) = sock_open c"
  by (auto simp: stop_conn_def begin_write_def begin_length_def begin_body_def)

lemma dispatch_reader_frame:
  assumes "life_ok c" and "dispatch e D c ev = Inr c'" and "\<not> is_read_event ev"
  shows "conn_reader c' = conn_reader c \<and> reads c' = reads c \<and> delivered c' = delivered c \<and>
    (sock_open c' \<longrightarrow> sock_open c)"
  using assms(2,3) life_ok_owned [OF assms(1)]
  by (cases "alive c"; cases "(e, D, c, ev)" rule: dispatch.cases)
    (auto simp: handler_outcome rbind_eq_Inr Let_def begin_write_def
      split: if_splits option.splits list.splits)

text \<open>A connection's reads and deliveries after the events \<open>es\<close>.\<close>

definition read_inv :: "event list \<Rightarrow> connection \<Rightarrow> bool" where
  "read_inv es c \<longleftrightarrow>
     life_ok c \<and> read_ok c \<and>
     (\<exists>bodies. delivered c = map frame_encode bodies \<and> list_all frame_valid bodies) \<and>
     (sock_open c \<longrightarrow> received es = concat (delivered c) @ partial_packet c)"

lemma received_snoc [simp]: "received (es @ [ev]) = received es @ received_by ev"
  by (simp add: received_def)

lemma read_inv_other:
  assumes "read_inv es c" and "held_step h e D c ev c'" and "\<not> is_read_event ev"
  shows "read_inv (es @ [ev]) c'"
proof -
  obtain c2 k where en: "enabled c ev" and d: "dispatch e D (complete ev c) ev = Inr c2" and c': "c' = release_by k c2"
    using assms(2) by (rule held_stepE)
  have life: "life_ok (complete ev c)" using assms(1) by (simp add: read_inv_def life_ok_complete)
  have "reads (complete ev c) = reads c"
    using assms(3) by (cases ev) (simp_all add: sorted_ops_complete)
  with dispatch_reader_frame [OF life d assms(3)] c'
  have same: "conn_reader c' = conn_reader c" "reads c' = reads c" "delivered c' = delivered c"
    and "sock_open c' \<Longrightarrow> sock_open c" by (auto dest: release_by_open)
  moreover have "received_by ev = []" using assms(3) by (cases ev) simp_all
  moreover have "life_ok c'" using life_step [OF _ assms(2)] assms(1) by (simp add: read_inv_def)
  ultimately show ?thesis
    using assms(1) by (auto simp: read_inv_def read_ok_def partial_packet_def)
qed

lemma reads_only:
  "read_ok c \<Longrightarrow> x \<in># reads c \<Longrightarrow> reads c = {#x#}"
  by (auto simp: read_ok_def)

lemma read_inv_length:
  assumes inv: "read_inv es c" and st: "held_step h e D c (Ev_read_length err data) c'"
  shows "read_inv (es @ [Ev_read_length err data]) c'"
proof -
  let ?ev = "Ev_read_length err data" let ?c = "complete ?ev c"
  obtain c2 k where en: "enabled c ?ev" and d: "read_length_handler e err data ?c = Inr c2" and c': "c' = release_by k c2"
    using st by (rule held_stepE) simp
  have life: "life_ok ?c" and life': "life_ok c'" and rok: "read_ok c"
    using inv life_step [OF _ st] by (simp_all add: read_inv_def life_ok_complete)
  have R: "reads c = {#Op_read_length#}" using reads_only [OF rok] enabled_sorted(2) [OF en] by simp
  then have R0: "reads ?c = {#}" by (simp add: sorted_ops_complete)
  have al: "alive ?c" using d dead_session_outcome(1) [of ?c e err data] by (cases "alive ?c") auto
  have o: "owned ?c" "on_close_set ?c" using life by (simp_all add: life_ok_def)
  note d' = d [symmetric, unfolded read_length_handler_outcome [OF o al]]
  show ?thesis
  proof (cases "sock_open c \<and> err = None \<and> ntohl e (load_u32 e data) \<le> MAX_PACKET_SIZE")
    case True
    then have len: "length data = 4" using en by (simp add: enabled_def)
    let ?n = "ntohl e (load_u32 e data)"
    have c2: "c2 = begin_body ?n ?c" using d' True by (auto simp: Let_def dest: leD split: if_splits)
    have n: "be_bytes 4 (unat ?n) = data"
      using load_less [of Big data] len by (simp add: ntohl_load unat_of_nat_u32 store_load)
    have "received es = concat (delivered c)" using inv True R by (simp add: read_inv_def partial_packet_def)
    moreover have "reads c' = {#Op_read_body (unat ?n)#}" using R0 by (simp add: c' c2)
    moreover have "conn_reader c' = conn_reader (begin_body ?n ?c)" by (simp add: c' c2)
    ultimately show ?thesis using inv True life' n
      by (simp add: read_inv_def read_ok_def partial_packet_def c' c2 begin_body_def take_body_buffer)
  next
    case False
    have "\<not> sock_open c' \<and> reads c' = {#} \<and> delivered c' = delivered c"
      using d' False R0 en c' life
      by (auto simp: Let_def enabled_def not_le life_ok_def dest!: release_by_open
          split: if_splits option.splits)
    then show ?thesis using inv life' by (auto simp: read_inv_def read_ok_def)
  qed
qed

lemma read_inv_body:
  assumes inv: "read_inv es c" and st: "held_step h e D c (Ev_read_body k err data) c'"
  shows "read_inv (es @ [Ev_read_body k err data]) c'"
proof -
  let ?ev = "Ev_read_body k err data" let ?c = "complete ?ev c"
  obtain c2 b where en: "enabled c ?ev" and d: "read_body_handler e D err data ?c = Inr c2" and c': "c' = release_by b c2"
    using st by (rule held_stepE) simp
  have life: "life_ok ?c" and life': "life_ok c'" and rok: "read_ok c"
    using inv life_step [OF _ st] by (simp_all add: read_inv_def life_ok_complete)
  have R: "reads c = {#Op_read_body k#}" using reads_only [OF rok] enabled_sorted(3) [OF en] by simp
  then have R0: "reads ?c = {#}" by (simp add: sorted_ops_complete)
  let ?buf = "rd_packet_buffer (conn_reader c)"
  have k: "k = unat (rd_packet_length (conn_reader c))" "k \<le> 1049600" "length ?buf = k + 4"
    "take 4 ?buf = be_bytes 4 k"
    using rok R by (auto simp: read_ok_def word_le_nat_alt)
  have al: "alive ?c" using d dead_session_outcome(2) [of ?c e D err data] by (cases "alive ?c") auto
  have o: "owned ?c" "on_close_set ?c" using life by (simp_all add: life_ok_def)
  note d' = d [symmetric, unfolded read_body_handler_outcome [OF o al]]
  show ?thesis
  proof (cases "sock_open c \<and> err = None")
    case True
    then have len: "length data = k" using en by (simp add: enabled_def)
    have buf: "mem_write ?buf 4 data = Inr (frame_encode data)"
      using k len by (simp add: frame_encode_def)
    have c2: "c2 = begin_length (emit (Eff_deliver (frame_encode data))
        (upd_reader (\<lambda>r. r\<lparr>rd_packet_buffer := []\<rparr>) ?c))"
      using d' [symmetric] True by (auto simp: buf rbind_eq_Inr)
    have "received es = concat (delivered c) @ be_bytes 4 k"
      using inv True R k by (simp add: read_inv_def partial_packet_def)
    moreover have "delivered c' = delivered c @ [frame_encode data]" by (simp add: c' c2)
    moreover obtain bodies where "delivered c = map frame_encode bodies" "list_all frame_valid bodies"
      using inv by (auto simp: read_inv_def)
    moreover have "reads c' = {#Op_read_length#}" using R0 by (simp add: c' c2)
    ultimately show ?thesis using True life' len k
      by (auto simp: read_inv_def read_ok_def partial_packet_def frame_encode_def frame_valid_def
          intro!: exI [where x = "bodies @ [data]"])
  next
    case False
    have "\<not> sock_open c' \<and> reads c' = {#} \<and> delivered c' = delivered c"
      using d' False R0 en c' life
      by (auto simp: enabled_def life_ok_def dest!: release_by_open split: if_splits option.splits)
    then show ?thesis using inv life' by (auto simp: read_inv_def read_ok_def)
  qed
qed

end
