(* ===== verification/Connection_Safety.thy ===== *)
theory Connection_Safety
  imports Connection_Runs
begin

section \<open>The invariants of every run\<close>

text \<open>
  The queue of the writer, the owner of the session while its idle timer has not expired, and the
  interpretation of the state machine contract with all invariants of a connection.
\<close>

subsection \<open>Writes\<close>

text \<open>What was posted, and the packets whose writing was started, in order.\<close>

fun posted_by :: "event \<Rightarrow> bytes list" where
  "posted_by (Ev_post b) = [b]"
| "posted_by _ = []"

definition posted :: "event list \<Rightarrow> bytes list" where
  "posted es = concat (map posted_by es)"

lemma posted_snoc [simp]: "posted (es @ [ev]) = posted es @ posted_by ev"
  by (simp add: posted_def)

fun started_by :: "sync_effect \<Rightarrow> bytes list" where
  "started_by (Eff_write b) = [b]"
| "started_by _ = []"

definition started :: "connection \<Rightarrow> bytes list" where
  "started c = concat (map started_by (effects c))"

abbreviation queue :: "connection \<Rightarrow> bytes list" where
  "queue c \<equiv> wr_queue (conn_writer c)"

lemma started_updates [simp]:
  "started (upd_reader f c) = started c" "started (upd_writer g c) = started c"
  "started (start_op x c) = started c" "started (release c) = started c"
  "started (release_by k c) = started c"
  "started (set_idle_expiry z c) = started c" "started (set_read_expiry z c) = started c"
  "started (set_write_expiry z c) = started c" "started (complete ev c) = started c"
  "started (emit y c) = started c @ started_by y"
  "started (stop_conn c) = started c" "started (begin_length c) = started c"
  "started (begin_body n c) = started c" "started (begin_write b c) = started c @ [b]"
  by (simp_all add: started_def stop_conn_def begin_length_def begin_body_def begin_write_def)

lemma queue_updates [simp]:
  "queue (begin_length c) = queue c" "queue (begin_body n c) = queue c" "queue (begin_write b c) = queue c"
  by (simp_all add: begin_length_def begin_body_def begin_write_def)

definition write_ok :: "connection \<Rightarrow> bool" where
  "write_ok c \<longleftrightarrow>
     (writes c = {#} \<and> (queue c = [] \<or> \<not> sock_open c)) \<or>
     (queue c \<noteq> [] \<and> writes c = {#Op_write (hd (queue c))#})"

definition write_inv :: "event list \<Rightarrow> connection \<Rightarrow> bool" where
  "write_inv es c \<longleftrightarrow> life_ok c \<and> write_ok c \<and> posted es = started c @ tl (queue c)"

fun is_writer_event :: "event \<Rightarrow> bool" where
  "is_writer_event (Ev_write _ _) = True"
| "is_writer_event (Ev_post _) = True"
| "is_writer_event _ = False"

lemma dispatch_writer_frame:
  assumes "life_ok c" and "dispatch e D c ev = Inr c'" and "\<not> is_writer_event ev"
  shows "queue c' = queue c \<and> writes c' = writes c \<and> started c' = started c \<and>
    (sock_open c' \<longrightarrow> sock_open c)"
  using assms(2,3) life_ok_owned [OF assms(1)]
  by (cases "alive c"; cases "(e, D, c, ev)" rule: dispatch.cases)
    (auto simp: handler_outcome rbind_eq_Inr Let_def split: if_splits option.splits list.splits)

lemma write_inv_other:
  assumes "write_inv es c" and "held_step h e D c ev c'" and "\<not> is_writer_event ev"
  shows "write_inv (es @ [ev]) c'"
proof -
  obtain c2 k where d: "dispatch e D (complete ev c) ev = Inr c2" and c': "c' = release_by k c2"
    using assms(2) by (rule held_stepE)
  have life: "life_ok (complete ev c)" using assms(1) by (simp add: write_inv_def life_ok_complete)
  have "writes (complete ev c) = writes c"
    using assms(3) by (cases ev) (simp_all add: sorted_ops_complete)
  with dispatch_writer_frame [OF life d assms(3)] c'
  have "queue c' = queue c" "writes c' = writes c" "started c' = started c"
    and "sock_open c' \<Longrightarrow> sock_open c" by (auto dest: release_by_open)
  moreover have "posted_by ev = []" using assms(3) by (cases ev) simp_all
  moreover have "life_ok c'" using life_step [OF _ assms(2)] assms(1) by (simp add: write_inv_def)
  ultimately show ?thesis using assms(1) by (auto simp: write_inv_def write_ok_def)
qed

lemma write_inv_post:
  assumes inv: "write_inv es c" and st: "held_step h e D c (Ev_post b) c'"
  shows "write_inv (es @ [Ev_post b]) c'"
proof -
  let ?c = "complete (Ev_post b) c"
  obtain c2 k where d: "add_packet_posted b ?c = Inr c2" and c': "c' = release_by k c2"
    using st by (rule held_stepE) simp
  have W: "writes ?c = writes c" by (simp add: sorted_ops_complete)
  have "queue c' = queue c @ [b] \<and> (sock_open c' \<longrightarrow> sock_open c) \<and>
      (if queue c = [] then writes c' = add_mset (Op_write b) (writes c) \<and> started c' = started c @ [b]
       else writes c' = writes c \<and> started c' = started c)"
    using d W c' by (auto simp: add_packet_posted_outcome Let_def split: if_splits dest: release_by_open)
  then show ?thesis using inv life_step [OF _ st]
    by (cases "queue c") (auto simp: write_inv_def write_ok_def)
qed

lemma write_inv_write:
  assumes inv: "write_inv es c" and st: "held_step h e D c (Ev_write b err) c'"
  shows "write_inv (es @ [Ev_write b err]) c'"
proof -
  let ?ev = "Ev_write b err" let ?c = "complete ?ev c"
  obtain c2 k where en: "enabled c ?ev" and d: "write_handler err ?c = Inr c2" and c': "c' = release_by k c2"
    using st by (rule held_stepE) simp
  have life: "life_ok ?c" and life': "life_ok c'" and ok: "write_ok c"
    using inv life_step [OF _ st] by (simp_all add: write_inv_def life_ok_complete)
  have W: "queue c \<noteq> []" "writes ?c = {#}"
    using ok enabled_sorted(4) [OF en] by (auto simp: write_ok_def sorted_ops_complete)
  have al: "alive ?c" using d dead_session_outcome(3) [of ?c err] by (cases "alive ?c") auto
  have o: "owned ?c" "on_close_set ?c" using life by (simp_all add: life_ok_def)
  note d' = d [symmetric, unfolded write_handler_outcome [OF o al]]
  obtain x q where q: "queue c = x # q" using W by (cases "queue c") auto
  show ?thesis
  proof (cases "sock_open c \<and> err = None")
    case True
    have c2: "c2 = (case q of [] \<Rightarrow> set_write_expiry Never (upd_writer (\<lambda>w. w\<lparr>wr_queue := []\<rparr>) ?c)
        | y # r \<Rightarrow> begin_write y (upd_writer (\<lambda>w. w\<lparr>wr_queue := y # r\<rparr>) ?c))"
      using d' True q by (cases q) auto
    show ?thesis using inv life' W q c' by (cases q) (simp_all add: c2 write_inv_def write_ok_def)
  next
    case False
    have "\<not> sock_open c' \<and> queue c' = queue c \<and> writes c' = {#} \<and> started c' = started c"
      using d' False W en c' life
      by (auto simp: enabled_def life_ok_def dest!: release_by_open split: if_splits option.splits)
    then show ?thesis using inv life' by (auto simp: write_inv_def write_ok_def)
  qed
qed

lemma write_inv_step:
  assumes "write_inv es c" and "held_step h e D c ev c'"
  shows "write_inv (es @ [ev]) c'"
  using assms write_inv_other write_inv_post write_inv_write by (cases ev) auto

lemma read_inv_step:
  assumes "read_inv es c" and "held_step h e D c ev c'"
  shows "read_inv (es @ [ev]) c'"
  using assms read_inv_other read_inv_length read_inv_body by (cases ev) auto

subsection \<open>The owner of a running session\<close>

text \<open>Whether the wait on the idle timer has completed with anything but an abort.\<close>

fun idle_expired_by :: "event \<Rightarrow> bool" where
  "idle_expired_by (Ev_wait Idle_timer err) \<longleftrightarrow> err \<noteq> Some Operation_aborted"
| "idle_expired_by _ \<longleftrightarrow> False"

definition idle_expired :: "event list \<Rightarrow> bool" where
  "idle_expired es \<longleftrightarrow> list_ex idle_expired_by es"

lemma idle_expired_snoc [simp]: "idle_expired (es @ [ev]) \<longleftrightarrow> idle_expired es \<or> idle_expired_by ev"
  by (auto simp: idle_expired_def)

definition waits_inv :: "event list \<Rightarrow> connection \<Rightarrow> bool" where
  "waits_inv es c \<longleftrightarrow>
     life_ok c \<and> waits c \<subseteq># {#Op_wait Idle_timer, Op_wait Read_timer, Op_wait Write_timer#} \<and>
     (\<not> idle_expired es \<longrightarrow> alive c \<and> Op_wait Idle_timer \<in># waits c)"

lemma dispatch_alive:
  assumes "life_ok c" and "dispatch e D c ev = Inr c'"
  shows "alive c' = alive c"
  using assms(2) life_ok_owned [OF assms(1)]
  by (cases "alive c"; cases "(e, D, c, ev)" rule: dispatch.cases)
    (auto simp: handler_outcome rbind_eq_Inr Let_def begin_length_def begin_body_def begin_write_def
      split: if_splits option.splits list.splits)

lemma alive_release: "Op_wait Idle_timer \<in># waits c \<Longrightarrow> alive (release_by k c) = alive c"
  by (auto simp: release_by_def release_def held_def sorted_ops intro!: bexI [where x = "Op_wait Idle_timer"])

lemma waits_inv_step:
  assumes inv: "waits_inv es c" and st: "held_step h e D c ev c'"
  shows "waits_inv (es @ [ev]) c'"
proof -
  obtain c2 k where d: "dispatch e D (complete ev c) ev = Inr c2" and c': "c' = release_by k c2"
    using st by (rule held_stepE)
  have life: "life_ok c" using inv by (simp add: waits_inv_def)
  have w: "waits c' \<subseteq># waits c \<and>
      (Op_wait Idle_timer \<in># waits c \<longrightarrow> \<not> idle_expired_by ev \<longrightarrow> Op_wait Idle_timer \<in># waits c')"
    using waits_step [OF life st] by (cases ev; cases "case ev of Ev_wait t _ \<Rightarrow> t | _ \<Rightarrow> Idle_timer")
      (auto simp: in_diff_count)
  have "alive c2 = alive c" using dispatch_alive [OF life_ok_complete [OF life] d] by simp
  then have "Op_wait Idle_timer \<in># waits c' \<Longrightarrow> alive c' = alive c"
    using alive_release [of c2 k] c' by simp
  then show ?thesis
    using inv w life_step [OF life st] by (auto simp: waits_inv_def intro: subset_mset.trans)
qed

subsection \<open>The contract\<close>

definition conn_inv :: "event list \<Rightarrow> connection \<Rightarrow> bool" where
  "conn_inv es c \<longleftrightarrow> read_inv es c \<and> write_inv es c \<and> waits_inv es c"

lemma conn_inv_fresh: "fresh c \<Longrightarrow> conn_inv [] c"
  using life_fresh [of c]
  by (auto simp: conn_inv_def read_inv_def write_inv_def waits_inv_def fresh_def fresh_connection_def
      read_ok_def write_ok_def sorted_ops received_def delivered_def posted_def started_def
      partial_packet_def intro: exI [where x = "[]"])

interpretation held: safe_machine "held_step h e D" fresh conn_inv for h e D
proof
  show "fresh s \<Longrightarrow> conn_inv [] s" for s by (rule conn_inv_fresh)
  show "conn_inv es s \<Longrightarrow> held_step h e D s ev s' \<Longrightarrow> conn_inv (es @ [ev]) s'" for es s ev s'
    unfolding conn_inv_def by (blast intro: read_inv_step write_inv_step waits_inv_step)
qed

interpretation conn: safe_machine "conn_step e D" fresh conn_inv for e D
proof
  show "fresh s \<Longrightarrow> conn_inv [] s" for s by (rule conn_inv_fresh)
  show "conn_inv es s \<Longrightarrow> conn_step e D s ev s' \<Longrightarrow> conn_inv (es @ [ev]) s'" for es s ev s'
    by (rule held.inv_step [OF _ conn_held])
qed

end
