(* ===== verification/Connection_Props.thy ===== *)
theory Connection_Props
  imports Connection_Safety
begin

section \<open>Properties of a connection\<close>

text \<open>
  What the invariants give for the runs of a connection, as statements about the events received
  and what the handlers do with them, and what happens at the edges of the protocol: oversized and
  malformed frames, expired timers, and the constructors as the program runs them.
\<close>

subsection \<open>Facts of a run\<close>

lemma run_facts:
  assumes "fresh c0" and "steps (conn_step e D) c0 es c"
  shows "life_ok c" "read_ok c" "write_ok c" "read_inv es c" "write_inv es c" "waits_inv es c"
  using conn.inv_steps [OF assms] by (simp_all add: conn_inv_def read_inv_def write_inv_def)

lemma run_partial:
  assumes "read_ok c" and "sock_open c" and "Op_read_body 0 \<notin># pending c"
  shows "frame_decode (partial_packet c) = None"
proof (cases "reads c = {#Op_read_length#}")
  case False
  then have r: "reads c = {#Op_read_body (unat (rd_packet_length (conn_reader c)))#}"
    "unat (rd_packet_length (conn_reader c)) \<le> 1049600"
    using assms(1,2) by (auto simp: read_ok_def word_le_nat_alt)
  then have "Op_read_body (unat (rd_packet_length (conn_reader c))) \<in># reads c" by simp
  then have "0 < unat (rd_packet_length (conn_reader c))"
    using assms(3) by (cases "unat (rd_packet_length (conn_reader c))") (auto simp: reads_def)
  then show ?thesis
    using r frame_decode_incomplete [of "unat (rd_packet_length (conn_reader c))" "[]"]
    by (simp add: partial_packet_def)
qed (simp add: partial_packet_def frame_decode_short)

text \<open>Reading one frame from a connection that waits for a length.\<close>

lemma read_pending_alone:
  "read_ok c \<Longrightarrow> Op_read_length \<in># pending c \<Longrightarrow> reads c = {#Op_read_length#}"
  by (rule reads_only) (simp_all add: reads_def)

lemma length_fire:
  assumes "life_ok c" and "sock_open c" and "length data = 4"
  shows "fire e D c (Ev_read_length None data) = Inr
    (if 1049600 < be_val data
     then release (stop_conn (upd_reader (\<lambda>r. r\<lparr>rd_packet_length := of_nat (be_val data)\<rparr>)
       (complete (Ev_read_length None data) c)))
     else begin_body (of_nat (be_val data)) (complete (Ev_read_length None data) c))"
proof -
  let ?c = "complete (Ev_read_length None data) c"
  have o: "owned ?c" "on_close_set ?c" "alive ?c" "in_sessions ?c" "sock_open ?c"
    using assms(1,2) by (simp_all add: life_ok_def)
  have "unat (of_nat (be_val data) :: u32) = be_val data"
    using load_less [of Big data] assms(3) by (simp add: unat_of_nat_u32)
  then have big: "MAX_PACKET_SIZE < (of_nat (be_val data) :: u32) \<longleftrightarrow> 1049600 < be_val data"
    by (simp add: word_less_nat_alt)
  have "release (begin_body k ?c) = begin_body k ?c" for k
    using o by (simp add: release_def held_def begin_body_def)
  then show ?thesis
    using o assms(3) by (simp add: fire_def read_length_handler_outcome ntohl_load Let_def big)
qed

lemma length_step:
  assumes "life_ok c" and "sock_open c" and "Op_read_length \<in># pending c" and "n \<le> 1049600"
  shows "conn_step e D c (Ev_read_length None (be_bytes 4 n))
    (begin_body (of_nat n) (complete (Ev_read_length None (be_bytes 4 n)) c))"
  using length_fire [OF assms(1,2), of "be_bytes 4 n" e D] assms(3,4)
  by (simp add: be_val_be_bytes conn_step_iff enabled_def)

lemma body_fire:
  assumes "life_ok c" and "sock_open c" and "read_ok c" and "Op_read_body (length body) \<in># pending c"
  shows "fire e D c (Ev_read_body (length body) None body) =
    rbind (packet_from_bytes e (frame_encode body)) (\<lambda>p.
      Inr (begin_length (emit (Eff_deliver (frame_encode body)) (upd_reader (\<lambda>r. r\<lparr>rd_packet_buffer := []\<rparr>)
        (complete (Ev_read_body (length body) None body) c)))))"
proof -
  let ?ev = "Ev_read_body (length body) None body" let ?c = "complete ?ev c"
  have o: "owned ?c" "on_close_set ?c" "alive ?c" "in_sessions ?c" "sock_open ?c"
    using assms(1,2) by (simp_all add: life_ok_def)
  have "reads c = {#Op_read_body (length body)#}"
    using reads_only [OF assms(3)] assms(4) by (simp add: reads_def)
  then have buf: "mem_write (rd_packet_buffer (conn_reader c)) 4 body = Inr (frame_encode body)"
    using assms(3) by (auto simp: read_ok_def frame_encode_def)
  have "release (begin_length (emit (Eff_deliver b) (upd_reader f ?c))) =
      begin_length (emit (Eff_deliver b) (upd_reader f ?c))" for b f
    using o by (simp add: release_def held_def begin_length_def)
  then show ?thesis
    using o by (cases "packet_from_bytes e (frame_encode body)")
      (simp_all add: fire_def read_body_handler_outcome buf)
qed

text \<open>The concrete frames and connection of the witnesses.\<close>

definition demo_connection :: connection where
  "demo_connection = fresh_connection 300 10 10"

definition demo_body :: bytes where
  "demo_body = [1, 1, 0,0, 0,0, 0,0,0,7]"

lemma demo_facts:
  "fresh demo_connection" "sock_open demo_connection" "Op_read_length \<in># pending demo_connection"
  "\<not> stopped demo_connection" "length demo_body = 10" "alive demo_connection"
  "pending demo_connection = {#Op_wait Idle_timer, Op_wait Read_timer, Op_wait Write_timer, Op_read_length#}"
  by (auto simp: demo_connection_def fresh_connection_def fresh_def demo_body_def)

lemma be_bytes_10: "be_bytes 4 10 = [0, 0, 0, 10]"
proof -
  have "le_bytes (Suc (Suc (Suc (Suc 0)))) 10 = [10, 0, 0, 0]" by simp
  moreover have "Suc (Suc (Suc (Suc 0))) = 4" by simp
  ultimately have "le_bytes 4 10 = [10, 0, 0, 0]" by metis
  then show ?thesis by (simp add: store_def)
qed

lemma demo_frame: "frame_encode demo_body = [0,0,0,10, 1, 1, 0,0, 0,0, 0,0,0,7]"
  by (simp only: frame_encode_def demo_facts(5) be_bytes_10) (simp add: demo_body_def)

lemma demo_acceptable: "acceptable e (frame_encode demo_body)"
  by (simp add: demo_frame packet_eval)

lemma frame_run:
  assumes "fresh c0" and "steps (conn_step e D) c0 es c" and "sock_open c" and "Op_read_length \<in># pending c"
    and "length body \<le> 1049600" and "acceptable e (frame_encode body)"
  obtains c' where "steps (conn_step e D) c
      [Ev_read_length None (be_bytes 4 (length body)), Ev_read_body (length body) None body] c'"
    and "sock_open c'" and "delivered c' = delivered c @ [frame_encode body]"
    and "Op_read_length \<in># pending c'"
proof -
  let ?n = "length body" let ?ev1 = "Ev_read_length None (be_bytes 4 ?n)"
  let ?ev2 = "Ev_read_body ?n None body"
  let ?c1 = "begin_body (of_nat ?n) (complete ?ev1 c)"
  let ?c2 = "begin_length (emit (Eff_deliver (frame_encode body))
      (upd_reader (\<lambda>r. r\<lparr>rd_packet_buffer := []\<rparr>) (complete ?ev2 ?c1)))"
  note st1 = length_step [OF run_facts(1) [OF assms(1,2)] assms(3,4,5), of e D]
  note f1 = run_facts [OF assms(1) steps_snoc [OF assms(2) st1]]
  have p: "Op_read_body ?n \<in># pending ?c1"
    using assms(5) by (simp add: begin_body_def unat_of_nat_u32)
  have "length (frame_encode body) < 4294967296" using assms(5) by (simp add: frame_encode_def)
  then obtain q where "packet_from_bytes e (frame_encode body) = Inr q"
    using assms(6) packet_from_bytes_Inr_iff [of "frame_encode body" e] by auto
  then have "fire e D ?c1 ?ev2 = Inr ?c2"
    using body_fire [OF f1(1) _ f1(2) p] assms(3) by simp
  then have "conn_step e D ?c1 ?ev2 ?c2" using p by (simp add: conn_step_iff enabled_def)
  then have "steps (conn_step e D) c [?ev1, ?ev2] ?c2"
    using steps_Cons [of "conn_step e D", OF st1 steps_single] by blast
  then show thesis using assms(3) by (intro that [of ?c2]) (simp_all add: begin_length_def)
qed

lemma demo_run:
  obtains c es where "steps (conn_step e D) demo_connection es c"
    and "es = [Ev_read_length None (be_bytes 4 10), Ev_read_body 10 None demo_body]" and "sock_open c"
    and "delivered c = [frame_encode demo_body]" and "Op_read_length \<in># pending c"
proof -
  have "delivered demo_connection = []"
    by (simp add: demo_connection_def fresh_connection_def delivered_def)
  then show thesis
    using frame_run [OF demo_facts(1) steps_nil demo_facts(2,3) _ demo_acceptable, of e D] that demo_facts(5)
    by auto
qed

subsection \<open>The stream of frames\<close>

text \<open>A body of no bytes is complete as soon as its length is, but its read has yet to be handled.\<close>

definition empty_body :: "connection \<Rightarrow> bytes list" where
  "empty_body c = (if Op_read_body 0 \<in># pending c then [[]] else [])"

lemma inv_frames:
  assumes "conn_inv es c" and "sock_open c"
  obtains bodies where "decode_all frame_decode (received es) =
      (bodies @ empty_body c, if empty_body c = [] then partial_packet c else [])"
    and "delivered c = map frame_encode bodies"
proof -
  have ok: "read_ok c" using assms(1) by (simp add: conn_inv_def read_inv_def)
  obtain bodies where b: "delivered c = map frame_encode bodies" "list_all frame_valid bodies"
    and r: "received es = concat (delivered c) @ partial_packet c"
    using assms by (auto simp: conn_inv_def read_inv_def)
  note dec = frames.decode_all_concat
  show thesis
  proof (cases "Op_read_body 0 \<in># pending c")
    case True
    then have R: "reads c = {#Op_read_body 0#}" using reads_only [OF ok] by (simp add: reads_def)
    then have "unat (rd_packet_length (conn_reader c)) = 0" using ok by (simp add: read_ok_def)
    with R have "partial_packet c = frame_encode []" by (simp add: partial_packet_def frame_encode_def)
    then have "decode_all frame_decode (received es) = (bodies @ [[]], [])"
      using dec [of "bodies @ [[]]" "[]"] b by (simp add: r list_all_iff frame_valid_def frame_decode_short)
    then show thesis using b(1) True that by (simp add: empty_body_def)
  next
    case False
    then have "decode_all frame_decode (received es) = (bodies, partial_packet c)"
      using dec [of bodies "partial_packet c"] run_partial [OF ok assms(2)] b by (simp add: r list_all_iff)
    then show thesis using b(1) False that by (simp add: empty_body_def)
  qed
qed

lemma inv_delivered:
  assumes "conn_inv es c" and "sock_open c"
  shows "map frame_encode (fst (decode_all frame_decode (received es))) =
    delivered c @ map frame_encode (empty_body c)"
  by (rule inv_frames [OF assms]) simp

lemma run_frames:
  assumes "fresh c0" and "steps (conn_step e D) c0 es c" and "sock_open c" and "Op_read_body 0 \<notin># pending c"
  obtains bodies where "decode_all frame_decode (received es) = (bodies, partial_packet c)"
    and "delivered c = map frame_encode bodies"
  by (rule inv_frames [OF conn.inv_steps [OF assms(1,2)] assms(3)], rule that)
    (use assms(4) in \<open>simp_all add: empty_body_def\<close>)

text \<open>C1: The reader refines the frame decoder: after any run of a connection whose socket is open,
  splitting all bytes received so far into length-prefixed frames gives exactly the packets that
  were handed to \<open>on_packet\<close>, in order and complete with their length, and what is left over is
  what the reader has read of the next packet. However the operating system and the timers order
  the completions, no byte is lost, duplicated or handed on twice. Right after a length of zero one
  more frame, the empty one, is complete, whose read, of no bytes, has not been handled yet.\<close>

theorem reader_refines_framing:
  assumes "fresh c0" and "steps (conn_step e D) c0 es c" and "sock_open c"
  shows "map frame_encode (fst (decode_all frame_decode (received es))) =
      delivered c @ (if Op_read_body 0 \<in># pending c then [frame_encode []] else []) \<and>
    snd (decode_all frame_decode (received es)) = (if Op_read_body 0 \<in># pending c then [] else partial_packet c)"
  by (rule inv_frames [OF conn.inv_steps [OF assms(1,2)] assms(3)]) (simp add: empty_body_def)

theorem reader_refines_framing_witness:
  "\<exists>c es. steps (conn_step Little demo_archive) demo_connection es c \<and> delivered c = [frame_encode demo_body] \<and>
     map frame_encode (fst (decode_all frame_decode (received es))) = [frame_encode demo_body]"
proof -
  obtain c es where r: "steps (conn_step Little demo_archive) demo_connection es c" "sock_open c"
    "delivered c = [frame_encode demo_body]" "Op_read_length \<in># pending c"
    by (rule demo_run)
  have "reads c = {#Op_read_length#}"
    using read_pending_alone [OF run_facts(2) [OF demo_facts(1) r(1)] r(4)] .
  then have "Op_read_body 0 \<notin># reads c" by simp
  then have "Op_read_body 0 \<notin># pending c" by (simp add: reads_def)
  with conjunct1 [OF reader_refines_framing [OF demo_facts(1) r(1,2)]] r(3)
  have "map frame_encode (fst (decode_all frame_decode (received es))) = [frame_encode demo_body]" by simp
  with r(1,3) show ?thesis by (intro exI conjI)
qed

text \<open>Progress: a connection that waits for a length and is sent a complete frame of at most
  1049600 bytes holding a well-formed packet hands exactly that packet to \<open>on_packet\<close>, stays
  open and waits for the next length.\<close>

lemma frame_is_delivered:
  assumes "fresh c0" and "steps (conn_step e D) c0 es c" and "sock_open c" and "Op_read_length \<in># pending c"
    and "length body \<le> 1049600" and "acceptable e (frame_encode body)"
  shows "\<exists>c'. steps (conn_step e D) c
      [Ev_read_length None (be_bytes 4 (length body)), Ev_read_body (length body) None body] c' \<and>
    sock_open c' \<and> delivered c' = delivered c @ [frame_encode body] \<and> Op_read_length \<in># pending c'"
  using frame_run [OF assms] by blast

lemma frame_is_delivered_demo:
  "\<exists>c'. steps (conn_step Big demo_archive) demo_connection
      [Ev_read_length None (be_bytes 4 10), Ev_read_body 10 None demo_body] c' \<and> sock_open c' \<and>
    delivered c' = delivered demo_connection @ [[0,0,0,10, 1, 1, 0,0, 0,0, 0,0,0,7]] \<and>
    Op_read_length \<in># pending c'"
  using frame_is_delivered [OF demo_facts(1) steps_nil demo_facts(2,3) _ demo_acceptable, of Big demo_archive]
    demo_facts(5) demo_frame by simp

text \<open>C17: A length above \<open>MAX_PACKET_SIZE\<close> closes the connection without reading on: the socket is
  closed, no read is started and nothing is delivered; any smaller one makes the reader wait for
  exactly that many bytes, in a buffer of four more.\<close>

theorem announced_length_is_bounded:
  assumes "fresh c0" and "steps (conn_step e D) c0 es c" and "sock_open c"
    and "conn_step e D c (Ev_read_length None data) c'"
  shows "if 1049600 < be_val data
    then \<not> sock_open c' \<and> stopped c' \<and> reads c' = {#} \<and> delivered c' = delivered c
    else sock_open c' \<and> reads c' = {#Op_read_body (be_val data)#} \<and>
      length (rd_packet_buffer (conn_reader c')) = be_val data + 4"
proof -
  let ?ev = "Ev_read_length None data" let ?c = "complete ?ev c"
  note f = run_facts [OF assms(1,2)]
  have en: "enabled c ?ev" and fire: "fire e D c ?ev = Inr c'" using assms(4) by (simp_all add: conn_step_iff)
  then have len: "length data = 4" by (simp add: enabled_def)
  have "reads c = {#Op_read_length#}" using reads_only [OF f(2)] enabled_sorted(2) [OF en] by simp
  then have R0: "reads ?c = {#}" by (simp add: sorted_ops_complete)
  have "unat (of_nat (be_val data) :: u32) = be_val data"
    using load_less [of Big data] len by (simp add: unat_of_nat_u32)
  moreover have "\<not> sock_open (release (stop_conn (upd_reader f ?c)))" for f
    using f(1) assms(3) by (auto simp: life_ok_def stop_conn_def dest!: release_open)
  ultimately show ?thesis
    using fire length_fire [OF f(1) assms(3) len, of e D] R0 assms(3) by (auto simp: begin_body_def)
qed

theorem announced_length_is_bounded_witness:
  "\<exists>c'. conn_step Little demo_archive demo_connection (Ev_read_length None (be_bytes 4 10)) c' \<and>
     reads c' = {#Op_read_body 10#} \<and> length (rd_packet_buffer (conn_reader c')) = 14"
proof -
  have l: "life_ok demo_connection" by (rule life_fresh [OF demo_facts(1)])
  obtain c' where st: "conn_step Little demo_archive demo_connection (Ev_read_length None (be_bytes 4 10)) c'"
    using length_step [OF l demo_facts(2,3), of 10 Little demo_archive] by auto
  from announced_length_is_bounded [OF demo_facts(1) steps_nil demo_facts(2) st] st show ?thesis
    by (auto simp: be_val_be_bytes simp del: store_def)
qed

subsection \<open>The queue of the writer\<close>

text \<open>C8: First in, first out, one write at a time: the packets whose writing was started, followed
  by those that wait behind the front of the queue, are exactly the packets posted, in order; at
  most one write is in progress, it is of the front of the queue, and while the socket is open
  and the queue holds a packet there is one.\<close>

theorem writer_fifo:
  assumes "fresh c0" and "steps (conn_step e D) c0 es c"
  shows "started c @ tl (queue c) = posted es \<and> size (writes c) \<le> 1 \<and>
    (\<forall>b. Op_write b \<in># pending c \<longrightarrow> queue c \<noteq> [] \<and> b = hd (queue c)) \<and>
    (sock_open c \<and> queue c \<noteq> [] \<longrightarrow> Op_write (hd (queue c)) \<in># pending c)"
proof -
  have w: "write_ok c" "posted es = started c @ tl (queue c)"
    using run_facts [OF assms] by (simp_all add: write_inv_def)
  have mem: "Op_write b \<in># pending c \<longleftrightarrow> Op_write b \<in># writes c" for b
    by (simp add: writes_def)
  have "size (writes c) \<le> 1" "\<forall>b. Op_write b \<in># writes c \<longrightarrow> queue c \<noteq> [] \<and> b = hd (queue c)"
    "sock_open c \<and> queue c \<noteq> [] \<longrightarrow> Op_write (hd (queue c)) \<in># writes c"
    using w(1) by (auto simp: write_ok_def)
  with w(2) show ?thesis unfolding mem by simp
qed

lemma post_run:
  assumes "alive c" and "in_sessions c" and "queue c = []"
  shows "steps (conn_step e D) c [Ev_write_packet b, Ev_post b]
    (begin_write b (upd_writer (\<lambda>w. w\<lparr>wr_queue := wr_queue w @ [b]\<rparr>)
      (complete (Ev_post b) (start_op (Op_post b) (set_idle_expiry (After (seconds_idle c)) c)))))"
proof -
  let ?c1 = "start_op (Op_post b) (set_idle_expiry (After (seconds_idle c)) c)"
  let ?w = "upd_writer (\<lambda>w. w\<lparr>wr_queue := wr_queue w @ [b]\<rparr>)"
  have "complete (Ev_write_packet b) c = c" by (simp add: complete_def)
  then have "fire e D c (Ev_write_packet b) = Inr ?c1"
    using assms by (simp add: fire_def write_packet_outcome release_def held_def)
  then have 1: "conn_step e D c (Ev_write_packet b) ?c1"
    using assms by (simp add: conn_step_iff enabled_def)
  have "fire e D ?c1 (Ev_post b) = Inr (begin_write b (?w (complete (Ev_post b) ?c1)))"
    using assms by (simp add: fire_def add_packet_posted_outcome release_def held_def begin_write_def)
  then have "conn_step e D ?c1 (Ev_post b) (begin_write b (?w (complete (Ev_post b) ?c1)))"
    by (simp add: conn_step_iff enabled_def)
  then show ?thesis using steps_Cons [of "conn_step e D", OF 1 steps_single] by blast
qed

theorem writer_fifo_witness:
  "\<exists>c. steps (conn_step Little demo_archive) demo_connection [Ev_write_packet [1], Ev_post [1]] c \<and>
     started c @ tl (queue c) = [[1]]"
proof -
  have "alive demo_connection" "in_sessions demo_connection" "queue demo_connection = []"
    by (simp_all add: demo_connection_def fresh_connection_def)
  note r = post_run [OF this, of Little demo_archive "[1]"]
  from conjunct1 [OF writer_fifo [OF demo_facts(1) r]] r show ?thesis
    by (auto simp: posted_def)
qed

subsection \<open>Closing\<close>

text \<open>C12: A connection is closed once: in every run the close callback has been called exactly once
  if the session was stopped and never otherwise, however many errors and expired timers there
  were; until then the socket is open, the server holds the session and it is alive, and from
  then on the socket is closed and the server does not hold it.\<close>

theorem close_exactly_once:
  assumes "fresh c0" and "steps (conn_step e D) c0 es c"
  shows "count_list (effects c) Eff_on_close = (if stopped c then 1 else 0) \<and>
    (sock_open c \<longleftrightarrow> \<not> stopped c) \<and> (in_sessions c \<longleftrightarrow> \<not> stopped c) \<and> (\<not> stopped c \<longrightarrow> alive c)"
  using run_facts(1) [OF assms] by (auto simp: life_ok_def)

lemma expiry_step:
  assumes "life_ok c" and "Op_wait t \<in># pending c" and "err \<noteq> Some Operation_aborted" and "\<not> stopped c"
  shows "conn_step e D c (Ev_wait t err) (release (stop_conn (complete (Ev_wait t err) c)))"
proof -
  have "alive c" using assms(1,4) by (simp add: life_ok_def)
  then have "dispatch e D (complete (Ev_wait t err) c) (Ev_wait t err) =
      Inr (stop_conn (complete (Ev_wait t err) c))"
    using assms(3) life_ok_complete [OF assms(1)] by (simp only: dispatch_wait) (simp add: timer.completed)
  then show ?thesis using assms(2) by (simp add: conn_step_iff enabled_def fire_def)
qed

theorem close_exactly_once_witness:
  "\<exists>c. steps (conn_step Little demo_archive) demo_connection [Ev_wait Read_timer None] c \<and>
     count_list (effects c) Eff_on_close = 1"
proof -
  have "life_ok demo_connection" by (rule life_fresh [OF demo_facts(1)])
  then have "conn_step Little demo_archive demo_connection (Ev_wait Read_timer None)
      (release (stop_conn (complete (Ev_wait Read_timer None) demo_connection)))"
    by (rule expiry_step) (simp_all add: demo_facts)
  note r = steps_single [of "conn_step Little demo_archive", OF this]
  from conjunct1 [OF close_exactly_once [OF demo_facts(1) r]] r show ?thesis by auto
qed

subsection \<open>Lifetime\<close>

text \<open>C15: When the idle timer of a running connection expires, the session is destroyed although its
  read, and any write, is still pending: the handler of the first of these to complete, also
  with the error of the closed socket, asks a destroyed socket whether it is open.\<close>

theorem idle_expiry_leaves_dangling_socket:
  assumes "fresh c0" and "steps (conn_step e D) c0 es c" and "sock_open c"
    and "conn_step e D c (Ev_wait Idle_timer err) c'" and "err \<noteq> Some Operation_aborted"
  shows "\<not> alive c' \<and> reads c' = reads c \<and> reads c' \<noteq> {#} \<and> writes c' = writes c \<and>
    (\<forall>ev. enabled c' ev \<and> socket_result ev \<noteq> None \<longrightarrow> is_ub (fire e D c' ev))"
proof -
  note f = run_facts [OF assms(1,2)]
  let ?ev = "Ev_wait Idle_timer err" let ?c = "complete ?ev c"
  have o: "owned ?c" "on_close_set ?c" "\<not> stopped c" using f(1) assms(3) by (simp_all add: life_ok_def)
  then obtain en: "enabled c ?ev" and c': "c' = release (stop_conn ?c)"
    using assms(4) by (auto elim!: conn_stepE simp: timer_handler_outcome(3) [OF o(1,2)] assms(5))
  have w: "waits ?c = waits c - {#Op_wait Idle_timer#}" by (simp add: sorted_ops_complete)
  have "count (waits c) (Op_wait Idle_timer) \<le> 1"
    using f(6) mset_subset_eq_count [of "waits c" _ "Op_wait Idle_timer"] by (fastforce simp: waits_inv_def)
  then have "Op_wait Idle_timer \<notin># waits ?c" by (simp add: w count_eq_zero_iff [symmetric])
  then have "Op_wait Idle_timer \<notin># pending ?c" by (simp add: waits_def)
  moreover have "\<forall>r. Op_login r \<notin># pending ?c"
    using life_ok_complete [OF f(1)] by (simp add: life_ok_def)
  moreover have "holds_session x \<Longrightarrow> x = Op_wait Idle_timer \<or> (\<exists>r. x = Op_login r)" for x
    by (cases x rule: holds_session.cases) simp_all
  moreover have "\<not> in_sessions (stop_conn ?c)" using o(3) by (simp add: stop_conn_def)
  ultimately have "\<not> held (stop_conn ?c)" by (auto simp: held_def)
  then have dead: "\<not> alive c'" by (simp add: c' release_def)
  have "is_ub (fire e D c' ev)" if "socket_result ev \<noteq> None" for ev
    using that dead by (cases ev) (simp_all add: fire_def dead_session_outcome)
  moreover have "reads c \<noteq> {#}" using f(2) assms(3) by (auto simp: read_ok_def)
  ultimately show ?thesis using dead by (simp add: c' sorted_ops_complete)
qed

theorem idle_expiry_leaves_dangling_socket_witness:
  "\<exists>c'. conn_step Little demo_archive demo_connection (Ev_wait Idle_timer None) c' \<and>
     is_ub (fire Little demo_archive c' (Ev_read_length (Some Operation_aborted) []))"
proof -
  have "life_ok demo_connection" by (rule life_fresh [OF demo_facts(1)])
  then have st: "conn_step Little demo_archive demo_connection (Ev_wait Idle_timer None)
      (release (stop_conn (complete (Ev_wait Idle_timer None) demo_connection)))" (is "conn_step _ _ _ _ ?c'")
    by (rule expiry_step) (simp_all add: demo_facts)
  have "enabled ?c' (Ev_read_length (Some Operation_aborted) [])"
    by (auto simp: enabled_def complete_def demo_facts stop_conn_def dest!: release_open)
  with idle_expiry_leaves_dangling_socket [OF demo_facts(1) steps_nil demo_facts(2) st] st
  show ?thesis by auto
qed

text \<open>C32: Logging in is unreachable: every packet the constructor of \<open>Packet\<close> returns is of type Text,
  File or Video and has no Action sub-header, so the router drops it: no input starts a login, and
  the session is left as it was.\<close>

theorem login_is_unreachable:
  assumes "packet_from_bytes e buf = Inr p"
  shows "pk_packet_type p \<in> {PT_Text, PT_File, PT_Video} \<and> sub_header_get_uint8 p SH_Action = None \<and>
    route D s p = Inr s \<and> auth_handle D s p = Inr s"
proof -
  have "find_sub (pk_headers p) SH_Action = None"
    using find_sub_mem [of "pk_headers p" SH_Action] received_wire_types [OF assms]
    by (cases "find_sub (pk_headers p) SH_Action") (auto simp: wire_sub_header_types_def)
  then have "sub_header_get_uint8 p SH_Action = None" by (simp add: sub_header_get_uint8_def)
  then show ?thesis
    using received_wire_types [OF assms] route_received [OF assms]
    by (auto simp: auth_handle_def wire_packet_types_def)
qed

theorem login_is_unreachable_witness:
  "\<exists>p. packet_from_bytes Little (frame_encode demo_body) = Inr p \<and> route demo_archive demo_connection p = Inr demo_connection"
proof -
  have "length (frame_encode demo_body) < 4294967296" by (simp add: frame_encode_def demo_facts)
  then have p: "packet_from_bytes Little (frame_encode demo_body) = Inr (packet_of Little (frame_encode demo_body))"
    using packet_from_bytes_Inr_iff demo_acceptable by simp
  from p login_is_unreachable [OF p, of demo_archive demo_connection] show ?thesis by blast
qed

subsection \<open>Timers\<close>

lemma dispatch_idle_expiry:
  assumes "life_ok c" and "dispatch e D c ev = Inr c'"
  shows "idle_expiry c' = (case ev of Ev_write_packet _ \<Rightarrow> After (seconds_idle c) | _ \<Rightarrow> idle_expiry c) \<and>
    seconds_idle c' = seconds_idle c"
  using assms(2) life_ok_owned [OF assms(1)]
  by (cases "alive c"; cases "(e, D, c, ev)" rule: dispatch.cases)
    (auto simp: handler_outcome rbind_eq_Inr Let_def begin_length_def begin_body_def begin_write_def
      split: if_splits option.splits list.splits)

text \<open>Only what the server sends keeps a connection from being idle: a step moves the deadline of
  the idle timer only if it is a call of \<open>write_packet\<close>; the packets a client sends do not, so a
  client that sends all the time is disconnected as idle.\<close>

lemma idle_deadline_ignores_input:
  assumes "fresh c0" and "steps (conn_step e D) c0 es c" and "conn_step e D c ev c'"
  shows "idle_expiry c' = (case ev of Ev_write_packet _ \<Rightarrow> After (seconds_idle c) | _ \<Rightarrow> idle_expiry c)"
proof -
  obtain c2 where d: "dispatch e D (complete ev c) ev = Inr c2" and c': "c' = release c2"
    using assms(3) by (rule conn_stepE)
  from dispatch_idle_expiry [OF life_ok_complete [OF run_facts(1) [OF assms(1,2)]] d] c' show ?thesis
    by (simp split: event.splits)
qed

lemma idle_deadline_ignores_input_demo:
  "\<exists>c'. conn_step Little demo_archive demo_connection (Ev_read_length None (be_bytes 4 10)) c' \<and>
     idle_expiry c' = idle_expiry demo_connection"
proof -
  have l: "life_ok demo_connection" by (rule life_fresh [OF demo_facts(1)])
  obtain c' where st: "conn_step Little demo_archive demo_connection (Ev_read_length None (be_bytes 4 10)) c'"
    using length_step [OF l demo_facts(2,3), of 10 Little demo_archive] by auto
  from idle_deadline_ignores_input [OF demo_facts(1) steps_nil st] st show ?thesis by auto
qed

text \<open>A completed wait stops the connection: each timer has at most one wait pending; when it
  completes without an abort the session is stopped and the socket closed, whatever deadline the
  timer has by then; when it was aborted the wait is started again and nothing else changes.\<close>

lemma completed_wait_stops:
  assumes "fresh c0" and "steps (conn_step e D) c0 es c" and "conn_step e D c (Ev_wait t err) c'"
  shows "count (pending c) (Op_wait t) = 1 \<and>
    (if err = Some Operation_aborted then pending c' = pending c \<and> stopped c' = stopped c \<and> effects c' = effects c
     else stopped c' \<and> \<not> sock_open c' \<and> Op_wait t \<notin># pending c')"
proof -
  note f = run_facts [OF assms(1,2)]
  let ?ev = "Ev_wait t err" let ?c = "complete ?ev c"
  obtain c2 where en: "enabled c ?ev" and d: "dispatch e D ?c ?ev = Inr c2" and c': "c' = release c2"
    using assms(3) by (rule conn_stepE)
  have o: "owned ?c" "on_close_set ?c" using f(1) by (simp_all add: life_ok_def)
  have m: "Op_wait t \<in># pending c" using en by (simp add: enabled_def)
  have p: "pending ?c = pending c - {#Op_wait t#}" by (simp add: complete_def)
  have "count (waits c) (Op_wait t) \<le> 1"
    using f(6) mset_subset_eq_count [of "waits c" _ "Op_wait t"] by (cases t) (fastforce simp: waits_inv_def)+
  then have one: "count (pending c) (Op_wait t) = 1"
    using m by (simp add: waits_def) (metis Suc_leI le_antisym count_greater_zero_iff One_nat_def)
  then have gone: "Op_wait t \<notin># pending ?c" by (simp add: p count_eq_zero_iff [symmetric])
  have c2: "c2 = (if err = Some Operation_aborted then start_op (Op_wait t) ?c
      else if t = Idle_timer \<or> alive c then stop_conn ?c else ?c)"
    using d o by (cases t) (auto simp: timer_handler_outcome split: if_splits)
  have "\<not> alive c \<Longrightarrow> stopped c \<and> \<not> sock_open c" using f(1) by (auto simp: life_ok_def)
  then show ?thesis
    using one gone m p f(1) by (auto simp: c' c2 life_ok_def dest!: release_open)
qed

lemma completed_wait_stops_demo:
  "\<exists>c'. conn_step Little demo_archive demo_connection (Ev_wait Read_timer None) c' \<and> stopped c' \<and> \<not> sock_open c'"
proof -
  have "life_ok demo_connection" by (rule life_fresh [OF demo_facts(1)])
  then have st: "conn_step Little demo_archive demo_connection (Ev_wait Read_timer None)
      (release (stop_conn (complete (Ev_wait Read_timer None) demo_connection)))"
    by (rule expiry_step) (simp_all add: demo_facts)
  from completed_wait_stops [OF demo_facts(1) steps_nil st] st show ?thesis by auto
qed

subsection \<open>The constructors as the program runs them\<close>

text \<open>No session can be made: the constructors of \<open>Session\<close>, \<open>Reader\<close> and \<open>Writer\<close> call
  \<^verbatim>\<open>shared_from_this\<close> before \<^verbatim>\<open>make_shared\<close> has made the owner, so each of them ends in an exception
  whatever the configuration, and in \<open>bad_weak_ptr\<close> when the configured timeout is an integer.\<close>

lemma constructors_always_throw:
  fixes J :: "('v, 'o) json_ops" and cfg :: "'o config" and cfgs :: "'o config_reads" and s :: session
  shows "session_new J cfg = rbind (get_int J cfg ''timeouts.idle_timeout_seconds'' 300) (\<lambda>_. Inl Bad_weak_ptr) \<and>
    reader_new J cfg s = rbind (get_int J cfg ''timeouts.read_timeout_seconds'' 10) (\<lambda>_. Inl Bad_weak_ptr) \<and>
    writer_new J cfg s = rbind (get_int J cfg ''timeouts.write_timeout_seconds'' 10) (\<lambda>_. Inl Bad_weak_ptr) \<and>
    isl (session_new J cfg) \<and> isl (reader_new J cfg s) \<and> isl (writer_new J cfg s) \<and>
    isl (session_start J cfgs s)"
proof -
  have new: "session_new J cfg = rbind (get_int J cfg ''timeouts.idle_timeout_seconds'' 300) (\<lambda>n. Inl Bad_weak_ptr)"
    "reader_new J cfg s = rbind (get_int J cfg ''timeouts.read_timeout_seconds'' 10) (\<lambda>n. Inl Bad_weak_ptr)"
    "writer_new J cfg s = rbind (get_int J cfg ''timeouts.write_timeout_seconds'' 10) (\<lambda>n. Inl Bad_weak_ptr)"
    by (simp_all add: session_new_def session_body_def reader_new_def reader_body_def writer_new_def
        writer_body_def check_idle_timer_def check_read_deadline_def check_write_deadline_def
        shared_from_this_def set_idle_expiry_def emit_def Let_def)
  have bad: "isl (rbind r (\<lambda>n. Inl Bad_weak_ptr))" for r :: "int res" by (cases r) simp_all
  have "isl (reader_new J (cfg_reader cfgs) s)"
    by (cases "get_int J (cfg_reader cfgs) ''timeouts.read_timeout_seconds'' 10")
      (simp_all add: reader_new_def reader_body_def check_read_deadline_def shared_from_this_def Let_def)
  then have "isl (session_start J cfgs s)"
    by (cases "reader_new J (cfg_reader cfgs) s") (simp_all add: session_start_def start_body_def reader_new_def)
  then show ?thesis using new by (simp add: bad)
qed

end
