(* ===== verification/Timers.thy ===== *)
theory Timers
  imports Connection_Safety
begin

section \<open>A connection in time\<close>

text \<open>
  \<open>Connection\<close> lets a wait complete at any moment. Here the clock runs, and the waits complete as
  the documentation of \<^verbatim>\<open>steady_timer\<close> promises, which is what the comments of
  \<open>src/network/reader.cpp\<close> and \<open>writer.cpp\<close> rely on: setting the deadline of a timer, or
  cancelling it, aborts the wait pending on it; a wait that is not aborted becomes due at a moment
  when the deadline has passed, and from then on nothing aborts it, although its handler may run
  later. Times are in seconds.

  \<open>set_at\<close> is no state of the timer: it records when the code last set the deadline. With \<open>h\<close> the
  session may be kept alive from outside.
\<close>

datatype wait_state = No_wait | Armed | Due | Cancelled

record timer =
  deadline :: "int option"
  set_at :: int
  wait :: wait_state

record timed =
  clock :: int
  timer_of :: "timer_id \<Rightarrow> timer"
  connection_of :: connection

subsection \<open>What the calls do to a timer\<close>

fun deadline_at :: "int \<Rightarrow> expiry \<Rightarrow> int option" where
  "deadline_at n Never = None"
| "deadline_at n (After d) = Some (n + d)"

definition cancel_wait :: "timer \<Rightarrow> timer" where
  "cancel_wait k = (if wait k = Armed then k\<lparr>wait := Cancelled\<rparr> else k)"

definition rearm :: "int \<Rightarrow> expiry \<Rightarrow> timer \<Rightarrow> timer" where
  "rearm n x k = cancel_wait (k\<lparr>deadline := deadline_at n x, set_at := n\<rparr>)"

fun timer_effect :: "int \<Rightarrow> timer_id \<Rightarrow> sync_effect \<Rightarrow> timer \<Rightarrow> timer" where
  "timer_effect n t (Eff_expires t' x) k = (if t' = t then rearm n x k else k)"
| "timer_effect n t (Eff_cancel t') k = (if t' = t then cancel_wait k else k)"
| "timer_effect n t _ k = k"

definition new_effects :: "connection \<Rightarrow> connection \<Rightarrow> sync_effect list" where
  "new_effects c c' = drop (length (effects c)) (effects c')"

text \<open>
  A timer through one step: the wait that completes is taken off, the calls of the handler are made
  in order, and a wait it has started is armed. No handler both sets a deadline and starts a wait.
\<close>

fun take_wait :: "timer_id \<Rightarrow> event \<Rightarrow> timer \<Rightarrow> timer" where
  "take_wait t (Ev_wait t' _) k = (if t' = t then k\<lparr>wait := No_wait\<rparr> else k)"
| "take_wait t _ k = k"

definition arm :: "bool \<Rightarrow> timer \<Rightarrow> timer" where
  "arm waiting k = (if waiting \<and> wait k = No_wait then k\<lparr>wait := Armed\<rparr> else k)"

definition step_timer :: "int \<Rightarrow> connection \<Rightarrow> event \<Rightarrow> connection \<Rightarrow> timer_id \<Rightarrow> timer \<Rightarrow> timer" where
  "step_timer n c ev c' t k =
     arm (Op_wait t \<in># pending c') (fold (timer_effect n t) (new_effects c c') (take_wait t ev k))"

subsection \<open>Timed runs\<close>

datatype timed_event =
    T_pass int
  | T_expire timer_id
  | T_do event

fun wait_allows :: "timed \<Rightarrow> event \<Rightarrow> bool" where
  "wait_allows s (Ev_wait t None) \<longleftrightarrow> wait (timer_of s t) = Due"
| "wait_allows s (Ev_wait t (Some x)) \<longleftrightarrow> x = Operation_aborted \<and> wait (timer_of s t) = Cancelled"
| "wait_allows s _ \<longleftrightarrow> True"

fun passed :: "int \<Rightarrow> int option \<Rightarrow> bool" where
  "passed n None \<longleftrightarrow> False"
| "passed n (Some d) \<longleftrightarrow> d \<le> n"

inductive timed_step :: "bool \<Rightarrow> endian \<Rightarrow> archive_reader \<Rightarrow> timed \<Rightarrow> timed_event \<Rightarrow> timed \<Rightarrow> bool"
  for h :: bool and e :: endian and D :: archive_reader
where
  pass: "0 \<le> d \<Longrightarrow> timed_step h e D s (T_pass d) (s\<lparr>clock := clock s + d\<rparr>)"
| expire: "wait (timer_of s t) = Armed \<Longrightarrow> passed (clock s) (deadline (timer_of s t)) \<Longrightarrow>
    timed_step h e D s (T_expire t) (s\<lparr>timer_of := (timer_of s)(t := (timer_of s t)\<lparr>wait := Due\<rparr>)\<rparr>)"
| act: "held_step h e D (connection_of s) ev c' \<Longrightarrow> wait_allows s ev \<Longrightarrow>
    timed_step h e D s (T_do ev)
      (s\<lparr>timer_of := (\<lambda>t. step_timer (clock s) (connection_of s) ev c' t (timer_of s t)), connection_of := c'\<rparr>)"

inductive_cases timed_passE: "timed_step h e D s (T_pass d) s'"
inductive_cases timed_expireE: "timed_step h e D s (T_expire t) s'"
inductive_cases timed_doE: "timed_step h e D s (T_do ev) s'"

text \<open>
  A connection that has just been set up: the deadlines of the idle timer and of the reader were
  set while a wait was pending on them, so these two waits are aborted and will be started again.
\<close>

definition start_timer :: "int \<Rightarrow> connection \<Rightarrow> timer_id \<Rightarrow> timer" where
  "start_timer n c t =
     (case t of
        Idle_timer \<Rightarrow> \<lparr>deadline = Some (n + seconds_idle c), set_at = n, wait = Cancelled\<rparr>
      | Read_timer \<Rightarrow> \<lparr>deadline = Some (n + rd_seconds (conn_reader c)), set_at = n, wait = Cancelled\<rparr>
      | Write_timer \<Rightarrow> \<lparr>deadline = None, set_at = n, wait = Armed\<rparr>)"

definition start_timed :: "int \<Rightarrow> connection \<Rightarrow> timed" where
  "start_timed n c = \<lparr>clock = n, timer_of = start_timer n c, connection_of = c\<rparr>"

definition timed_fresh :: "timed \<Rightarrow> bool" where
  "timed_fresh s \<longleftrightarrow> (\<exists>n c. fresh c \<and> s = start_timed n c)"

fun event_done :: "timed_event \<Rightarrow> event list" where
  "event_done (T_do ev) = [ev]"
| "event_done _ = []"

definition events_done :: "timed_event list \<Rightarrow> event list" where
  "events_done es = concat (map event_done es)"

lemma events_done_snoc [simp]: "events_done (es @ [x]) = events_done es @ event_done x"
  by (simp add: events_done_def)

text \<open>Time only restricts: a timed run is a run of the connection.\<close>

lemma timed_is_run:
  "steps (timed_step h e D) s es s' \<Longrightarrow> steps (held_step h e D) (connection_of s) (events_done es) (connection_of s')"
proof (induction rule: steps.induct)
  case (steps_nil s)
  show ?case by (simp add: events_done_def steps.steps_nil)
next
  case (steps_snoc s es t x u)
  from steps_snoc.hyps(2) show ?case
    using steps_snoc.IH by cases (auto intro: steps.steps_snoc)
qed

end
