(* ===== verification/Timers_Inv.thy ===== *)
theory Timers_Inv
  imports Timers
begin

section \<open>The timers of a running connection\<close>

text \<open>
  Which deadlines the handlers set, and the invariant of every timed run: each timer has the
  deadline its configured seconds give from the moment the code last set it, the writer's only
  while its queue holds a packet, and it is waited on exactly while the wait is pending.
\<close>

subsection \<open>Calls on timers\<close>

lemma rearm_fields [simp]:
  "deadline (rearm n x k) = deadline_at n x" "set_at (rearm n x k) = n"
  "deadline (cancel_wait k) = deadline k" "set_at (cancel_wait k) = set_at k"
  "deadline (arm b k) = deadline k" "set_at (arm b k) = set_at k"
  by (simp_all add: rearm_def cancel_wait_def arm_def)

lemma take_wait_fields [simp]:
  "deadline (take_wait t ev k) = deadline k" "set_at (take_wait t ev k) = set_at k"
  by (induction t ev k rule: take_wait.induct) simp_all

lemma cancel_rearm [simp]:
  "cancel_wait (cancel_wait k) = cancel_wait k" "cancel_wait (rearm n x k) = rearm n x k"
  "rearm n x (cancel_wait k) = rearm n x k" "rearm n x (rearm n y k) = rearm n x k"
  by (simp_all add: rearm_def cancel_wait_def)

fun sets_only :: "timer_id \<Rightarrow> expiry \<Rightarrow> sync_effect \<Rightarrow> bool" where
  "sets_only t x (Eff_expires t' y) \<longleftrightarrow> (t' = t \<longrightarrow> y = x)"
| "sets_only t x _ \<longleftrightarrow> True"

lemma fold_timer:
  "list_all (sets_only t x) xs \<Longrightarrow> fold (timer_effect n t) xs k =
    (if Eff_expires t x \<in> set xs then rearm n x k else if Eff_cancel t \<in> set xs then cancel_wait k else k)"
proof (induction xs arbitrary: k)
  case (Cons a xs)
  show ?case
  proof (cases a)
    case (Eff_expires t' y)
    show ?thesis
    proof (cases "t' = t")
      case True
      then have "y = x" using Cons.prems Eff_expires by simp
      then show ?thesis using Cons True Eff_expires by simp
    next
      case False
      then have "list_all (sets_only t x) xs" using Cons.prems by simp
      then show ?thesis using False Cons.IH Eff_expires by auto
    qed
  qed (use Cons in auto)
qed simp

lemma wait_fold:
  "wait (fold (timer_effect n t) xs k) =
     (if wait k = Armed \<and> (Eff_cancel t \<in> set xs \<or> (\<exists>y. Eff_expires t y \<in> set xs)) then Cancelled else wait k)"
proof (induction xs arbitrary: k)
  case (Cons a xs)
  then show ?case by (cases a) (auto simp: rearm_def cancel_wait_def)
qed simp

subsection \<open>The deadlines the handlers set\<close>

definition timeout :: "timer_id \<Rightarrow> connection \<Rightarrow> expiry" where
  "timeout t c =
     (case t of
        Idle_timer \<Rightarrow> After (seconds_idle c)
      | Read_timer \<Rightarrow> After (rd_seconds (conn_reader c))
      | Write_timer \<Rightarrow> if queue c = [] then Never else After (wr_seconds (conn_writer c)))"

definition same_seconds :: "connection \<Rightarrow> connection \<Rightarrow> bool" where
  "same_seconds c c' \<longleftrightarrow> seconds_idle c' = seconds_idle c \<and>
     rd_seconds (conn_reader c') = rd_seconds (conn_reader c) \<and>
     wr_seconds (conn_writer c') = wr_seconds (conn_writer c)"

text \<open>
  One step appends calls that set deadlines only to the configured timeout, and the writer's
  whenever its queue becomes empty or stops being so.
\<close>

definition calls_ok :: "connection \<Rightarrow> connection \<Rightarrow> sync_effect list \<Rightarrow> bool" where
  "calls_ok c c' xs \<longleftrightarrow>
     effects c' = effects c @ xs \<and> same_seconds c c' \<and>
     (\<forall>t. list_all (sets_only t (timeout t c')) xs) \<and>
     (Eff_expires Write_timer (timeout Write_timer c') \<in> set xs \<or> (queue c' = [] \<longleftrightarrow> queue c = []))"

lemma timeout_release [simp]: "timeout t (release_by k c) = timeout t c"
  by (cases t) (simp_all add: timeout_def)

lemma stop_effects:
  "effects (stop_conn c) = effects c @ (if stopped c then [] else [Eff_close, Eff_cancel Idle_timer, Eff_on_close])"
  by (simp add: stop_conn_def)

lemma begin_effects:
  "effects (begin_length c) = effects c @ [Eff_expires Read_timer (After (rd_seconds (conn_reader c)))]"
  "effects (begin_body n c) = effects c @ [Eff_expires Read_timer (After (rd_seconds (conn_reader c)))]"
  "effects (begin_write b c) = effects c @ [Eff_expires Write_timer (After (wr_seconds (conn_writer c))), Eff_write b]"
  by (simp_all add: begin_length_def begin_body_def begin_write_def)

lemma begin_seconds:
  "rd_seconds (conn_reader (begin_length c)) = rd_seconds (conn_reader c)"
  "rd_seconds (conn_reader (begin_body n c)) = rd_seconds (conn_reader c)"
  "conn_writer (begin_length c) = conn_writer c" "conn_writer (begin_body n c) = conn_writer c"
  "wr_seconds (conn_writer (begin_write b c)) = wr_seconds (conn_writer c)"
  "seconds_idle (begin_length c) = seconds_idle c" "seconds_idle (begin_body n c) = seconds_idle c"
  "seconds_idle (begin_write b c) = seconds_idle c"
  by (simp_all add: begin_length_def begin_body_def begin_write_def)

lemmas timer_calls = calls_ok_def same_seconds_def timeout_def stop_effects begin_effects begin_seconds

lemma dispatch_calls:
  assumes "life_ok c" and "dispatch e D c ev = Inr c'"
  shows "\<exists>xs. calls_ok c c' xs"
  using assms(2) life_ok_owned [OF assms(1)]
  by (cases "alive c"; cases "(e, D, c, ev)" rule: dispatch.cases)
    (auto simp: handler_outcome rbind_eq_Inr Let_def timer_calls
      split: if_splits option.splits list.splits timer_id.splits)

lemma calls_ok_sets: "calls_ok c c' xs \<Longrightarrow> Eff_expires t x \<in> set xs \<Longrightarrow> x = timeout t c'"
proof -
  assume "calls_ok c c' xs" and m: "Eff_expires t x \<in> set xs"
  then have "list_all (sets_only t (timeout t c')) xs" by (simp add: calls_ok_def)
  then have "sets_only t (timeout t c') (Eff_expires t x)" using m by (simp only: list_all_iff)
  then show ?thesis by simp
qed

lemma step_calls:
  assumes "life_ok c" and "held_step h e D c ev c'"
  shows "calls_ok c c' (new_effects c c')"
proof -
  obtain c2 k where d: "dispatch e D (complete ev c) ev = Inr c2" and c': "c' = release_by k c2"
    using assms(2) by (rule held_stepE)
  obtain xs where "calls_ok (complete ev c) c2 xs" using dispatch_calls [OF life_ok_complete [OF assms(1)] d] ..
  then have "calls_ok c c' xs" by (simp add: calls_ok_def same_seconds_def c')
  moreover from this have "new_effects c c' = xs" by (simp add: calls_ok_def new_effects_def)
  ultimately show ?thesis by simp
qed

subsection \<open>The invariant\<close>

text \<open>What one step makes of a timer, given the calls of the handler.\<close>

definition sets_deadline :: "timer_id \<Rightarrow> connection \<Rightarrow> connection \<Rightarrow> bool" where
  "sets_deadline t c c' \<longleftrightarrow> Eff_expires t (timeout t c') \<in> set (new_effects c c')"

lemma step_timer_deadline:
  assumes "calls_ok c c' (new_effects c c')"
  shows "deadline (step_timer n c ev c' t k) =
      (if sets_deadline t c c' then deadline_at n (timeout t c') else deadline k)"
    and "set_at (step_timer n c ev c' t k) = (if sets_deadline t c c' then n else set_at k)"
proof -
  have "list_all (sets_only t (timeout t c')) (new_effects c c')" using assms by (simp add: calls_ok_def)
  note f = fold_timer [OF this, of n "take_wait t ev k"]
  show "deadline (step_timer n c ev c' t k) =
      (if sets_deadline t c c' then deadline_at n (timeout t c') else deadline k)"
    and "set_at (step_timer n c ev c' t k) = (if sets_deadline t c c' then n else set_at k)"
    by (simp_all add: step_timer_def f sets_deadline_def)
qed

lemma timeout_unset:
  assumes "calls_ok c c' (new_effects c c')" and "\<not> sets_deadline t c c'"
  shows "timeout t c' = timeout t c"
  using assms by (cases t) (auto simp: calls_ok_def same_seconds_def timeout_def sets_deadline_def)

lemma step_timer_waiting:
  "wait (step_timer n c ev c' t k) = No_wait \<longleftrightarrow>
     Op_wait t \<notin># pending c' \<and> wait (take_wait t ev k) = No_wait"
  by (auto simp: step_timer_def arm_def wait_fold)

lemma wait_take_wait:
  "wait (take_wait t ev k) = (case ev of Ev_wait t' _ \<Rightarrow> if t' = t then No_wait else wait k | _ \<Rightarrow> wait k)"
  by (cases ev) simp_all

definition deadlines_ok :: "timed \<Rightarrow> bool" where
  "deadlines_ok s \<longleftrightarrow> (\<forall>t. set_at (timer_of s t) \<le> clock s \<and>
     deadline (timer_of s t) = deadline_at (set_at (timer_of s t)) (timeout t (connection_of s)))"

definition waits_ok :: "timed \<Rightarrow> bool" where
  "waits_ok s \<longleftrightarrow> (\<forall>t. wait (timer_of s t) = No_wait \<longleftrightarrow> Op_wait t \<notin># pending (connection_of s))"

lemma waiting: "waits_ok s \<Longrightarrow> wait (timer_of s t) \<noteq> No_wait \<Longrightarrow> Op_wait t \<in># pending (connection_of s)"
  unfolding waits_ok_def by metis

definition timed_inv :: "timed_event list \<Rightarrow> timed \<Rightarrow> bool" where
  "timed_inv es s \<longleftrightarrow> conn_inv (events_done es) (connection_of s) \<and> deadlines_ok s \<and> waits_ok s"

lemma wait_pending_step:
  assumes "life_ok c" and "held_step h e D c ev c'" and "waits c \<subseteq># {#Op_wait Idle_timer, Op_wait Read_timer, Op_wait Write_timer#}"
  shows "Op_wait t \<in># pending c' \<longleftrightarrow> Op_wait t \<in># pending c \<and>
    (\<forall>err. ev = Ev_wait t err \<longrightarrow> err = Some Operation_aborted)"
proof -
  have m: "Op_wait t \<in># pending d \<longleftrightarrow> Op_wait t \<in># waits d" for d by (simp add: waits_def)
  have "count (waits c) (Op_wait t) \<le> 1"
    using mset_subset_eq_count [OF assms(3), of "Op_wait t"] by (cases t) simp_all
  moreover have "ev = Ev_wait t' err \<Longrightarrow> Op_wait t' \<in># waits c" for t' err
    using held_stepE [OF assms(2)] enabled_sorted(1) by metis
  ultimately show ?thesis
    unfolding m waits_step [OF assms(1,2)]
    by (cases ev) (auto simp: in_diff_count not_le Suc_le_eq dest: count_greater_zero_iff [THEN iffD2])
qed

lemma conn_inv_facts:
  assumes "conn_inv es c"
  shows "life_ok c" "waits c \<subseteq># {#Op_wait Idle_timer, Op_wait Read_timer, Op_wait Write_timer#}"
    "read_ok c" "write_ok c"
  using assms by (simp_all add: conn_inv_def read_inv_def write_inv_def waits_inv_def)

lemma deadlines_step:
  assumes "deadlines_ok s" and "life_ok (connection_of s)" and "timed_step h e D s x s'"
  shows "deadlines_ok s'"
  using assms(3)
proof cases
  case (pass d)
  then show ?thesis using assms(1) by (auto simp: deadlines_ok_def intro: order_trans)
next
  case (expire t)
  then show ?thesis using assms(1) by (simp add: deadlines_ok_def)
next
  case (act ev c')
  have calls: "calls_ok (connection_of s) c' (new_effects (connection_of s) c')"
    using step_calls [OF assms(2) act(3)] .
  show ?thesis
    using assms(1) timeout_unset [OF calls] by (simp add: deadlines_ok_def act(2) step_timer_deadline [OF calls])
qed

lemma waits_ok_step:
  assumes "waits_ok s" and "conn_inv es (connection_of s)" and "timed_step h e D s x s'"
  shows "waits_ok s'"
  using assms(3)
proof cases
  case (act ev c')
  note f = conn_inv_facts [OF assms(2)]
  show ?thesis
    using assms(1) wait_pending_step [OF f(1) act(3) f(2)]
    by (auto simp: waits_ok_def act(2) step_timer_waiting wait_take_wait split: event.splits)
next
  case (expire t)
  then show ?thesis using assms(1) by (simp add: waits_ok_def) (metis wait_state.distinct(1))
qed (use assms(1) in \<open>simp add: waits_ok_def\<close>)

interpretation timed: safe_machine "timed_step h e D" timed_fresh timed_inv for h e D
proof
  show "timed_fresh s \<Longrightarrow> timed_inv [] s" for s
    by (auto simp: timed_fresh_def start_timed_def timed_inv_def conn_inv_fresh events_done_def deadlines_ok_def
        waits_ok_def start_timer_def timeout_def fresh_def fresh_connection_def split: timer_id.splits)
  show "timed_inv (es @ [x]) s'" if inv: "timed_inv es s" and st: "timed_step h e D s x s'" for es s x s'
  proof -
    have "conn_inv (events_done (es @ [x])) (connection_of s')"
      using st inv by cases (auto simp: timed_inv_def intro: held.inv_step)
    then show ?thesis
      using inv st deadlines_step waits_ok_step by (auto simp: timed_inv_def dest: conn_inv_facts(1))
  qed
qed

end
