(* ===== verification/Timers_Props.thy ===== *)
theory Timers_Props
  imports Timers_Inv Connection_Props
begin

section \<open>Properties of timed runs\<close>

text \<open>
  No timeout comes early; a peer that stays silent is disconnected in time; a deadline moved too
  late does not save the connection; and the wait on the writer's timer outlives a closed
  connection.
\<close>

lemma timed_facts:
  assumes "timed_fresh s0" and "steps (timed_step h e D) s0 es s"
  shows "conn_inv (events_done es) (connection_of s)" "deadlines_ok s" "waits_ok s"
    "life_ok (connection_of s)"
  using timed.inv_steps [OF assms] by (auto simp: timed_inv_def dest: conn_inv_facts)

fun seconds_of :: "timer_id \<Rightarrow> connection \<Rightarrow> int" where
  "seconds_of Idle_timer c = seconds_idle c"
| "seconds_of Read_timer c = rd_seconds (conn_reader c)"
| "seconds_of Write_timer c = wr_seconds (conn_writer c)"

lemma timeout_seconds:
  "timeout t c = (if t = Write_timer \<and> queue c = [] then Never else After (seconds_of t c))"
  by (cases t) (simp_all add: timeout_def)

lemma seconds_step:
  assumes "life_ok (connection_of s)" and "timed_step h e D s x s'"
  shows "seconds_of t (connection_of s') = seconds_of t (connection_of s)"
  using assms(2)
proof cases
  case (act ev c')
  show ?thesis using step_calls [OF assms(1) act(3)]
    by (cases t) (simp_all add: act(2) calls_ok_def same_seconds_def)
qed simp_all

text \<open>What holds from a moment of the run on.\<close>

lemma seconds_run:
  assumes "steps (timed_step h e D) s fs s'" and "timed_inv es s"
  shows "seconds_of t (connection_of s') = seconds_of t (connection_of s) \<and> (\<exists>gs. timed_inv gs s')"
  using assms
proof (induction rule: steps.induct)
  case (steps_snoc s fs u x v)
  then obtain gs where "timed_inv gs u" "seconds_of t (connection_of u) = seconds_of t (connection_of s)" by blast
  with steps_snoc.hyps(2) show ?case
    using seconds_step timed.inv_step by (metis conn_inv_facts(1) timed_inv_def)
qed blast

lemma set_at_step:
  assumes "timed_step h e D s x s'" and "deadlines_ok s" and "life_ok (connection_of s)"
  shows "set_at (timer_of s t) \<le> set_at (timer_of s' t)"
  using assms(1)
proof cases
  case (act ev c')
  show ?thesis
    using assms(2) by (simp add: act(2) step_timer_deadline [OF step_calls [OF assms(3) act(3)]] deadlines_ok_def)
qed simp_all

lemma set_at_run:
  assumes "steps (timed_step h e D) s fs s'" and "timed_inv es s"
  shows "set_at (timer_of s t) \<le> set_at (timer_of s' t)"
  using assms
proof (induction rule: steps.induct)
  case (steps_snoc s fs u x v)
  then have le: "set_at (timer_of s t) \<le> set_at (timer_of u t)" by blast
  obtain gs where "timed_inv gs u" using seconds_run [OF steps_snoc.hyps(1) steps_snoc.prems] by blast
  then have "set_at (timer_of u t) \<le> set_at (timer_of v t)"
    using set_at_step [OF steps_snoc.hyps(2)] by (auto simp: timed_inv_def dest: conn_inv_facts)
  with le show ?case by (rule order_trans)
qed simp

text \<open>No timeout comes early: between a step that sets the deadline of a timer and any moment at
  which a wait on that timer becomes due, at least the configured seconds of the timer have
  passed; the writer's timer becomes due only while a packet is queued.\<close>

lemma timeout_not_premature:
  assumes "timed_fresh s0" and "steps (timed_step h e D) s0 es s1" and "timed_step h e D s1 (T_do ev) s2"
    and "Eff_expires t x \<in> set (new_effects (connection_of s1) (connection_of s2))"
    and "steps (timed_step h e D) s2 fs s3" and "timed_step h e D s3 (T_expire t) s4"
  shows "clock s2 + seconds_of t (connection_of s0) \<le> clock s3 \<and>
    (t = Write_timer \<longrightarrow> queue (connection_of s3) \<noteq> [])"
proof -
  have i0: "timed_inv [] s0" using assms(1) by (rule timed.inv_start)
  have i1: "timed_inv es s1" using timed.inv_steps [OF assms(1,2)] .
  have i2: "timed_inv (es @ [T_do ev]) s2" using timed.inv_next [OF assms(1-3)] .
  obtain gs where i3: "timed_inv gs s3" and same: "seconds_of t (connection_of s3) = seconds_of t (connection_of s0)"
    using seconds_run [OF assms(2) i0] seconds_run [OF assms(5) i2]
      seconds_step [OF _ assms(3), of t] timed_facts(4) [OF assms(1,2)] by metis
  have "set_at (timer_of s2 t) = clock s2"
    using assms(3)
  proof (rule timed_doE)
    fix c' assume s2: "s2 = s1\<lparr>timer_of := \<lambda>t. step_timer (clock s1) (connection_of s1) ev c' t (timer_of s1 t),
        connection_of := c'\<rparr>" and st: "held_step h e D (connection_of s1) ev c'"
    note calls = step_calls [OF timed_facts(4) [OF assms(1,2)] st]
    have "x = timeout t c'" using calls_ok_sets [OF calls] assms(4) by (simp add: s2)
    then have "sets_deadline t (connection_of s1) c'" using assms(4) by (simp add: s2 sets_deadline_def)
    then show ?thesis by (simp add: s2 step_timer_deadline [OF calls])
  qed
  then have le: "clock s2 \<le> set_at (timer_of s3 t)" using set_at_run [OF assms(5) i2, of t] by simp
  have p: "passed (clock s3) (deadline (timer_of s3 t))" using assms(6) by (rule timed_expireE)
  then show ?thesis
    using i3 le same by (auto simp: timed_inv_def deadlines_ok_def timeout_seconds split: if_splits)
qed

subsection \<open>Silence is bounded\<close>

text \<open>
  Prompt runs: no time passes while a wait is due or aborted and its handler has not run, nor
  beyond the deadline of a wait. This is a machine whose workers keep up.
\<close>

definition timers :: "timer_id list" where
  "timers = [Idle_timer, Read_timer, Write_timer]"

fun before :: "int \<Rightarrow> int option \<Rightarrow> bool" where
  "before n None \<longleftrightarrow> True"
| "before n (Some d) \<longleftrightarrow> n \<le> d"

fun prompt :: "timed \<Rightarrow> timed_event \<Rightarrow> bool" where
  "prompt s (T_pass d) \<longleftrightarrow> list_all (\<lambda>t. wait (timer_of s t) = No_wait \<or>
     wait (timer_of s t) = Armed \<and> before (clock s + d) (deadline (timer_of s t))) timers"
| "prompt s _ \<longleftrightarrow> True"

definition prompt_step :: "bool \<Rightarrow> endian \<Rightarrow> archive_reader \<Rightarrow> timed \<Rightarrow> timed_event \<Rightarrow> timed \<Rightarrow> bool" where
  "prompt_step h e D s x s' \<longleftrightarrow> timed_step h e D s x s' \<and> prompt s x"

lemma prompt_timed: "steps (prompt_step h e D) s es s' \<Longrightarrow> steps (timed_step h e D) s es s'"
  by (induction rule: steps.induct) (auto simp: prompt_step_def intro: steps.intros)

text \<open>The events that may move the deadline of a timer.\<close>

fun progress :: "timer_id \<Rightarrow> event \<Rightarrow> bool" where
  "progress Idle_timer (Ev_write_packet _) \<longleftrightarrow> True"
| "progress Read_timer (Ev_read_length err _) \<longleftrightarrow> err = None"
| "progress Read_timer (Ev_read_body _ err _) \<longleftrightarrow> err = None"
| "progress Write_timer (Ev_write _ err) \<longleftrightarrow> err = None"
| "progress Write_timer (Ev_post _) \<longleftrightarrow> True"
| "progress _ _ \<longleftrightarrow> False"

lemma dispatch_progress:
  assumes "life_ok c" and "dispatch e D c ev = Inr c'" and "Eff_expires t x \<in> set (new_effects c c')"
  shows "progress t ev"
  using assms(2,3) life_ok_owned [OF assms(1)]
  by (cases "alive c"; cases "(e, D, c, ev)" rule: dispatch.cases; cases t)
    (auto simp: handler_outcome rbind_eq_Inr Let_def new_effects_def stop_effects begin_effects
      split: if_splits option.splits list.splits)

lemma step_progress:
  assumes "life_ok c" and "held_step h e D c ev c'" and "sets_deadline t c c'"
  shows "progress t ev"
proof -
  obtain c2 k where d: "dispatch e D (complete ev c) ev = Inr c2" and c': "c' = release_by k c2"
    using assms(2) by (rule held_stepE)
  then show ?thesis
    using dispatch_progress [OF life_ok_complete [OF assms(1)] d, of t] assms(3)
    by (simp add: sets_deadline_def new_effects_def)
qed

lemma dispatch_stays_closed:
  assumes "life_ok c" and "dispatch e D c ev = Inr c'" and "sock_open c'"
  shows "sock_open c \<and> (\<forall>t err. ev = Ev_wait t err \<longrightarrow> err = Some Operation_aborted)"
  using assms(2,3) life_ok_owned [OF assms(1)] assms(1)
  by (cases "alive c"; cases "(e, D, c, ev)" rule: dispatch.cases)
    (auto simp: handler_outcome rbind_eq_Inr Let_def life_ok_def split: if_splits option.splits list.splits)

lemma open_step:
  assumes "life_ok c" and "held_step h e D c ev c'" and "sock_open c'"
  shows "sock_open c \<and> (\<forall>t err. ev = Ev_wait t err \<longrightarrow> err = Some Operation_aborted)"
proof -
  obtain c2 k where d: "dispatch e D (complete ev c) ev = Inr c2" and c': "c' = release_by k c2"
    using assms(2) by (rule held_stepE)
  then show ?thesis
    using dispatch_stays_closed [OF life_ok_complete [OF assms(1)] d] assms(3) by (auto dest: release_by_open)
qed

definition prompt_ok :: "timed \<Rightarrow> bool" where
  "prompt_ok s \<longleftrightarrow> (sock_open (connection_of s) \<longrightarrow> (\<forall>t. wait (timer_of s t) \<noteq> No_wait \<and>
     (\<forall>n. timeout t (connection_of s) = After n \<longrightarrow> clock s \<le> set_at (timer_of s t) + max 0 n)))"

definition prompt_inv :: "timed_event list \<Rightarrow> timed \<Rightarrow> bool" where
  "prompt_inv es s \<longleftrightarrow> timed_inv es s \<and> prompt_ok s"

lemma prompt_ok_step:
  assumes "timed_inv es s" and "prompt_ok s" and "prompt_step h e D s x s'"
  shows "prompt_ok s'"
proof -
  have life: "life_ok (connection_of s)" and dl: "deadlines_ok s" and wt: "waits_ok s"
    and sub: "waits (connection_of s) \<subseteq># {#Op_wait Idle_timer, Op_wait Read_timer, Op_wait Write_timer#}"
    using assms(1) by (auto simp: timed_inv_def dest: conn_inv_facts)
  from assms(3) have st: "timed_step h e D s x s'" and pr: "prompt s x" by (simp_all add: prompt_step_def)
  from st show ?thesis
  proof cases
    case (pass d)
    have "before (clock s + d) (deadline (timer_of s t))" if "wait (timer_of s t) \<noteq> No_wait" for t
      using pr that by (cases t) (auto simp: pass timers_def)
    then show ?thesis
      using assms(2) dl by (force simp: prompt_ok_def pass deadlines_ok_def)
  next
    case (expire t)
    then show ?thesis using assms(2) by (auto simp: prompt_ok_def)
  next
    case (act ev c')
    show ?thesis
    proof (cases "sock_open c'")
      case True
      note o = open_step [OF life act(3) True] and calls = step_calls [OF life act(3)]
      have "Op_wait t \<in># pending c'" for t
        using wait_pending_step [OF life act(3) sub, of t] assms(2) wt o
        by (auto simp: prompt_ok_def waits_ok_def)
      moreover have "clock s \<le> set_at (step_timer (clock s) (connection_of s) ev c' t (timer_of s t)) + max 0 n"
        if "timeout t c' = After n" for t n
        using that assms(2) o timeout_unset [OF calls, of t]
        by (auto simp: step_timer_deadline [OF calls] prompt_ok_def)
      ultimately show ?thesis by (simp add: prompt_ok_def act(2) step_timer_waiting)
    qed (simp add: prompt_ok_def act(2))
  qed
qed

interpretation prompt: safe_machine "prompt_step h e D" timed_fresh prompt_inv for h e D
proof
  show "timed_fresh s \<Longrightarrow> prompt_inv [] s" for s
    using timed.inv_start [of s]
    by (auto simp: prompt_inv_def timed_fresh_def start_timed_def prompt_ok_def start_timer_def timeout_def
        split: timer_id.splits)
  show "prompt_inv es s \<Longrightarrow> prompt_step h e D s x s' \<Longrightarrow> prompt_inv (es @ [x]) s'" for es s x s'
    using prompt_ok_step timed.inv_step by (auto simp: prompt_inv_def prompt_step_def)
qed

lemma no_progress_run:
  assumes "steps (prompt_step h e D) s fs s'" and "timed_inv es s"
    and "list_all (\<lambda>ev. \<not> progress t ev) (events_done fs)"
  shows "set_at (timer_of s' t) = set_at (timer_of s t)"
  using assms
proof (induction rule: steps.induct)
  case (steps_snoc s fs u x v)
  then have same: "set_at (timer_of u t) = set_at (timer_of s t)" by simp
  obtain gs where "timed_inv gs u" using seconds_run [OF prompt_timed [OF steps_snoc.hyps(1)] steps_snoc.prems(1)] by blast
  then have life: "life_ok (connection_of u)" by (auto simp: timed_inv_def dest: conn_inv_facts)
  have "timed_step h e D u x v" using steps_snoc.hyps(2) by (simp add: prompt_step_def)
  then have "set_at (timer_of v t) = set_at (timer_of u t)"
  proof cases
    case (act ev c')
    have "\<not> progress t ev" using steps_snoc.prems(2) by (simp add: act)
    then have "\<not> sets_deadline t (connection_of u) c'" using step_progress [OF life act(3)] by blast
    then show ?thesis by (simp add: act(2) step_timer_deadline [OF step_calls [OF life act(3)]])
  qed simp_all
  with same show ?case by simp
qed simp

text \<open>Silence is bounded: while a server whose handlers run promptly keeps a connection open, at
  most the read timeout passes without a successful read, at most the idle timeout without a
  call of \<open>write_packet\<close>, whatever the peer sends, and, with a packet queued, at most the write
  timeout without a completed write or a posted packet. A negative timeout counts as zero.\<close>

lemma silence_is_bounded:
  assumes "timed_fresh s0" and "steps (prompt_step h e D) s0 es s1" and "steps (prompt_step h e D) s1 fs s2"
    and "sock_open (connection_of s2)" and "t = Write_timer \<longrightarrow> queue (connection_of s2) \<noteq> []"
    and "list_all (\<lambda>ev. \<not> progress t ev) (events_done fs)"
  shows "clock s2 - clock s1 \<le> max 0 (seconds_of t (connection_of s0))"
proof -
  have i0: "timed_inv [] s0" using assms(1) by (rule timed.inv_start)
  have i1: "timed_inv es s1" and i2: "timed_inv (es @ fs) s2" and p2: "prompt_ok s2"
    using prompt.inv_steps [OF assms(1,2)] prompt.inv_steps [OF assms(1) steps_append [OF assms(3,2)]]
    by (simp_all add: prompt_inv_def)
  have "seconds_of t (connection_of s2) = seconds_of t (connection_of s0)"
    using seconds_run [OF prompt_timed [OF steps_append [OF assms(3,2)]] i0] by blast
  then have "clock s2 \<le> set_at (timer_of s2 t) + max 0 (seconds_of t (connection_of s0))"
    using p2 assms(4,5) by (auto simp: prompt_ok_def timeout_seconds)
  moreover have "set_at (timer_of s2 t) = set_at (timer_of s1 t)" using no_progress_run [OF assms(3) i1 assms(6)] .
  moreover have "set_at (timer_of s1 t) \<le> clock s1" using i1 by (simp add: timed_inv_def deadlines_ok_def)
  ultimately show ?thesis by simp
qed

text \<open>An aborted wait is started again, and nothing else changes.\<close>

definition rearmed :: "timer_id \<Rightarrow> timed \<Rightarrow> timed" where
  "rearmed t s = s\<lparr>timer_of := (timer_of s)(t := (timer_of s t)\<lparr>wait := Armed\<rparr>)\<rparr>"

lemma rewait_step:
  assumes "life_ok (connection_of s)" and "sock_open (connection_of s)" and "waits_ok s"
    and "wait (timer_of s t) = Cancelled"
  shows "timed_step h e D s (T_do (Ev_wait t (Some Operation_aborted))) (rearmed t s)"
proof -
  let ?c = "connection_of s" let ?ev = "Ev_wait t (Some Operation_aborted)"
  have m: "Op_wait t \<in># pending ?c" using assms(3,4) by (simp add: waiting)
  have o: "owned ?c" "on_close_set ?c" "in_sessions ?c" using assms(1,2) by (simp_all add: life_ok_def)
  have "dispatch e D (complete ?ev ?c) ?ev = Inr ?c"
    using timer.again [OF assms(1) m] by (simp only: dispatch_wait) (simp add: complete_def)
  moreover have "release ?c = ?c" using o by (simp add: release_def held_def)
  ultimately have "fire e D ?c ?ev = Inr ?c" by (simp add: fire_def)
  then have st: "held_step h e D ?c ?ev ?c" using m by (intro conn_held) (simp add: conn_step_iff enabled_def)
  have "step_timer (clock s) ?c ?ev ?c u (timer_of s u) = timer_of (rearmed t s) u" for u
    using assms(3) m by (auto simp: step_timer_def new_effects_def arm_def waits_ok_def rearmed_def)
  then have "(\<lambda>u. step_timer (clock s) ?c ?ev ?c u (timer_of s u)) = timer_of (rearmed t s)" by (rule ext)
  then have "s\<lparr>timer_of := \<lambda>u. step_timer (clock s) ?c ?ev ?c u (timer_of s u), connection_of := ?c\<rparr> = rearmed t s"
    by (simp add: rearmed_def)
  with timed_step.act [of h e D s ?ev ?c] st assms(4) show ?thesis by simp
qed

lemma rearmed_fields [simp]:
  "connection_of (rearmed t s) = connection_of s" "clock (rearmed t s) = clock s"
  "deadline (timer_of (rearmed t s) u) = deadline (timer_of s u)"
  "wait (timer_of (rearmed t s) u) = (if u = t then Armed else wait (timer_of s u))"
  by (simp_all add: rearmed_def)

text \<open>The demonstration connection ten seconds after its start, with nothing received.\<close>

definition demo_late :: timed where
  "demo_late = (rearmed Read_timer (rearmed Idle_timer (start_timed 0 demo_connection)))\<lparr>clock := 10\<rparr>"

lemma demo_late_fields:
  "connection_of demo_late = demo_connection" "clock demo_late = 10"
  "wait (timer_of demo_late t) = Armed" "deadline (timer_of demo_late Read_timer) = Some 10"
  by (cases t; simp add: demo_late_def rearmed_def start_timed_def start_timer_def demo_connection_def
      fresh_connection_def)+

lemma demo_timed_fresh: "timed_fresh (start_timed 0 demo_connection)"
  using demo_facts(1) by (auto simp: timed_fresh_def)

lemma demo_late_run:
  "steps (prompt_step False Little demo_archive) (start_timed 0 demo_connection)
     [T_do (Ev_wait Idle_timer (Some Operation_aborted)), T_do (Ev_wait Read_timer (Some Operation_aborted)),
      T_pass 10] demo_late"
proof -
  let ?s0 = "start_timed 0 demo_connection" let ?s1 = "rearmed Idle_timer ?s0" let ?s2 = "rearmed Read_timer ?s1"
  have w: "waits_ok ?s0" and l: "life_ok (connection_of ?s0)"
    using timed.inv_start [OF demo_timed_fresh] by (auto simp: timed_inv_def dest: conn_inv_facts)
  have w1: "waits_ok ?s1" using w demo_facts(7) by (simp add: waits_ok_def start_timed_def)
  let ?step = "prompt_step False Little demo_archive" and ?again = "\<lambda>t. T_do (Ev_wait t (Some Operation_aborted))"
  have 1: "?step ?s0 (?again Idle_timer) ?s1"
    unfolding prompt_step_def using l demo_facts(2) w
    by (intro conjI rewait_step) (simp_all add: start_timed_def start_timer_def)
  have 2: "?step ?s1 (?again Read_timer) ?s2"
    unfolding prompt_step_def using l demo_facts(2) w1
    by (intro conjI rewait_step) (simp_all add: start_timed_def start_timer_def)
  have "timed_step False Little demo_archive ?s2 (T_pass 10) demo_late"
    using timed_step.pass [of 10 False Little demo_archive ?s2] by (simp add: demo_late_def start_timed_def)
  moreover have "prompt ?s2 (T_pass 10)"
    by (simp add: timers_def start_timed_def start_timer_def demo_connection_def fresh_connection_def)
  ultimately have 3: "?step ?s2 (T_pass 10) demo_late" by (simp add: prompt_step_def)
  show ?thesis by (rule steps_Cons [where step = ?step, OF 1 steps_Cons [where step = ?step, OF 2 steps_single [where step = ?step, OF 3]]])
qed

lemma silence_is_bounded_demo:
  "clock demo_late - 0 \<le> max 0 (seconds_of Read_timer demo_connection)"
proof -
  have "clock demo_late - clock (start_timed 0 demo_connection) \<le>
      max 0 (seconds_of Read_timer (connection_of (start_timed 0 demo_connection)))"
    by (rule silence_is_bounded [OF demo_timed_fresh steps_nil demo_late_run])
      (simp_all add: demo_late_fields demo_facts events_done_def)
  then show ?thesis by (simp add: start_timed_def)
qed

subsection \<open>Early timeouts, continued\<close>

lemma length_step_effects:
  assumes "life_ok c" and "sock_open c" and "Op_read_length \<in># pending c" and "n \<le> 1049600"
    and "ev = Ev_read_length None (be_bytes 4 n)"
  obtains c' where "held_step h e D c ev c'" and "sock_open c'" and "sets_deadline Read_timer c c'"
    and "seconds_of Read_timer c' = seconds_of Read_timer c"
    and "\<And>t. Op_wait t \<in># pending c' \<longleftrightarrow> Op_wait t \<in># pending c"
proof -
  let ?c = "begin_body (of_nat n) (complete ev c)"
  have "Eff_expires Read_timer (timeout Read_timer ?c) \<in> set (new_effects c ?c)"
    by (simp add: new_effects_def begin_effects begin_seconds timeout_seconds)
  moreover have "Op_wait t \<in># pending ?c \<longleftrightarrow> Op_wait t \<in># pending c" for t
    by (simp add: begin_body_def complete_def assms(5) in_diff_count)
  ultimately show thesis
    using conn_held [OF length_step [OF assms(1-4), of e D]] assms(2) that [of ?c]
    by (simp add: assms(5) sets_deadline_def begin_seconds)
qed

text \<open>A length that is received sets the reader's deadline anew; a wait that is due stays due.\<close>

lemma timed_length_step:
  assumes "timed_inv es s" and "sock_open (connection_of s)" and "Op_read_length \<in># pending (connection_of s)"
    and "n \<le> 1049600" and "ev = Ev_read_length None (be_bytes 4 n)"
  obtains s' where "timed_step h e D s (T_do ev) s'" and "sock_open (connection_of s')" and "clock s' = clock s"
    and "Eff_expires Read_timer (timeout Read_timer (connection_of s')) \<in>
      set (new_effects (connection_of s) (connection_of s'))"
    and "deadline (timer_of s' Read_timer) = Some (clock s + seconds_of Read_timer (connection_of s))"
    and "wait (timer_of s' Read_timer) =
      (if wait (timer_of s Read_timer) = Armed then Cancelled else wait (timer_of s Read_timer))"
    and "timed_inv (es @ [T_do ev]) s'"
proof -
  have life: "life_ok (connection_of s)" and wt: "waits_ok s"
    using assms(1) by (auto simp: timed_inv_def dest: conn_inv_facts)
  obtain c' where st: "held_step h e D (connection_of s) ev c'" and c': "sock_open c'"
    "sets_deadline Read_timer (connection_of s) c'" "seconds_of Read_timer c' = seconds_of Read_timer (connection_of s)"
    and p: "\<And>t. Op_wait t \<in># pending c' \<longleftrightarrow> Op_wait t \<in># pending (connection_of s)"
    using length_step_effects [OF life assms(2-5), of h e D] by metis
  let ?s = "s\<lparr>timer_of := \<lambda>t. step_timer (clock s) (connection_of s) ev c' t (timer_of s t), connection_of := c'\<rparr>"
  have step: "timed_step h e D s (T_do ev) ?s" using timed_step.act [OF st] assms(5) by simp
  note k = step_timer_deadline [OF step_calls [OF life st]]
  have "wait (timer_of ?s Read_timer) = (if wait (timer_of s Read_timer) = Armed then Cancelled else wait (timer_of s Read_timer))"
    using c'(2) wt p [of Read_timer]
    by (auto simp: step_timer_def arm_def wait_fold sets_deadline_def assms(5) waits_ok_def)
  then show thesis
    using that [OF step] c' timed.inv_step [OF assms(1) step]
    by (simp add: k timeout_seconds sets_deadline_def)
qed

text \<open>C23: A deadline moved too late does not save the connection: when the deadline of the reader has
  passed and the wait has become due, a length that is received before the handler of the wait runs
  moves the deadline into the future, but the handler still closes the connection, as it never
  compares the deadline with the clock.\<close>

theorem late_input_is_disconnected:
  assumes "timed_fresh s0" and "steps (timed_step h e D) s0 es s" and "sock_open (connection_of s)"
    and "Op_read_length \<in># pending (connection_of s)" and "wait (timer_of s Read_timer) = Armed"
    and "passed (clock s) (deadline (timer_of s Read_timer))"
    and "n \<le> 1049600" and "0 < seconds_of Read_timer (connection_of s)"
  shows "\<exists>s'. steps (timed_step h e D) s [T_expire Read_timer, T_do (Ev_read_length None (be_bytes 4 n)),
        T_do (Ev_wait Read_timer None)] s' \<and>
      stopped (connection_of s') \<and> \<not> sock_open (connection_of s') \<and>
      \<not> passed (clock s') (deadline (timer_of s' Read_timer))"
proof -
  let ?ev = "Ev_read_length None (be_bytes 4 n)" and ?w = "Ev_wait Read_timer None"
  let ?s1 = "s\<lparr>timer_of := (timer_of s)(Read_timer := (timer_of s Read_timer)\<lparr>wait := Due\<rparr>)\<rparr>"
  note f = timed_facts [OF assms(1,2)]
  have 1: "timed_step h e D s (T_expire Read_timer) ?s1" using assms(5,6) by (rule timed_step.expire)
  have i1: "timed_inv (es @ [T_expire Read_timer]) ?s1" using timed.inv_next [OF assms(1,2) 1] .
  obtain s2 where 2: "timed_step h e D ?s1 (T_do ?ev) s2" and s2: "sock_open (connection_of s2)" "clock s2 = clock s"
    "deadline (timer_of s2 Read_timer) = Some (clock s + seconds_of Read_timer (connection_of s))"
    "wait (timer_of s2 Read_timer) = Due" and i2: "timed_inv ((es @ [T_expire Read_timer]) @ [T_do ?ev]) s2"
    by (rule timed_length_step [OF i1, of n ?ev h e D]) (use assms(3,4,7) in simp_all)
  have life: "life_ok (connection_of s2)" and wt: "waits_ok s2"
    using i2 by (auto simp: timed_inv_def dest: conn_inv_facts)
  let ?c2 = "complete ?w (connection_of s2)" let ?c3 = "release (stop_conn ?c2)"
  have open2: "\<not> stopped (connection_of s2)" using life s2(1) by (simp add: life_ok_def)
  have st: "held_step h e D (connection_of s2) ?w ?c3"
    using waiting [OF wt, of Read_timer] s2(4) open2 by (intro conn_held expiry_step [OF life]) simp_all
  let ?s3 = "s2\<lparr>timer_of := \<lambda>t. step_timer (clock s2) (connection_of s2) ?w ?c3 t (timer_of s2 t), connection_of := ?c3\<rparr>"
  have 3: "timed_step h e D s2 (T_do ?w) ?s3" using timed_step.act [OF st] s2(4) by simp
  have "\<not> sets_deadline Read_timer (connection_of s2) ?c3"
    by (simp add: sets_deadline_def new_effects_def stop_effects)
  then have "deadline (timer_of ?s3 Read_timer) = deadline (timer_of s2 Read_timer)"
    by (simp add: step_timer_deadline [OF step_calls [OF life st]])
  then have "\<not> passed (clock ?s3) (deadline (timer_of ?s3 Read_timer))" using s2 assms(8) by simp
  moreover have "stopped ?c3" "\<not> sock_open ?c3" using open2 by (auto dest!: release_open)
  moreover have "steps (timed_step h e D) s [T_expire Read_timer, T_do ?ev, T_do ?w] ?s3"
    by (rule steps_Cons [where step = "timed_step h e D", OF 1
        steps_Cons [where step = "timed_step h e D", OF 2 steps_single [where step = "timed_step h e D", OF 3]]])
  ultimately show ?thesis by (intro exI [where x = ?s3]) simp
qed

theorem late_input_is_disconnected_witness:
  "\<exists>s'. steps (timed_step False Little demo_archive) demo_late
       [T_expire Read_timer, T_do (Ev_read_length None (be_bytes 4 10)), T_do (Ev_wait Read_timer None)] s' \<and>
     stopped (connection_of s')"
proof -
  have "0 < seconds_of Read_timer (connection_of demo_late)"
    by (simp add: demo_late_fields demo_connection_def fresh_connection_def)
  then show ?thesis
    using late_input_is_disconnected [OF demo_timed_fresh prompt_timed [OF demo_late_run], of 10]
    by (auto simp: demo_late_fields demo_facts)
qed

subsection \<open>What is left of a closed connection\<close>

fun is_post :: "event \<Rightarrow> bool" where
  "is_post (Ev_post _) \<longleftrightarrow> True"
| "is_post _ \<longleftrightarrow> False"

lemma dispatch_closed_queue:
  assumes "life_ok c" and "dispatch e D c ev = Inr c'" and "\<not> sock_open c" and "\<not> is_post ev"
  shows "queue c' = queue c"
  using assms(2-4) life_ok_owned [OF assms(1)]
  by (cases "alive c"; cases "(e, D, c, ev)" rule: dispatch.cases)
    (auto simp: handler_outcome split: if_splits option.splits)

definition left_waiting :: "timed \<Rightarrow> bool" where
  "left_waiting s \<longleftrightarrow> \<not> sock_open (connection_of s) \<and> queue (connection_of s) = [] \<and>
     wait (timer_of s Write_timer) \<in> {Armed, Cancelled}"

lemma left_waiting_step:
  assumes "timed_inv es s" and "left_waiting s" and "timed_step h e D s x s'"
    and "list_all (\<lambda>ev. \<not> is_post ev) (event_done x)"
  shows "left_waiting s'"
proof -
  have life: "life_ok (connection_of s)" and dl: "deadlines_ok s" and wt: "waits_ok s"
    and sub: "waits (connection_of s) \<subseteq># {#Op_wait Idle_timer, Op_wait Read_timer, Op_wait Write_timer#}"
    using assms(1) by (auto simp: timed_inv_def dest: conn_inv_facts)
  from assms(3) show ?thesis
  proof cases
    case (expire t)
    have "deadline (timer_of s Write_timer) = None"
      using assms(2) dl by (simp add: left_waiting_def deadlines_ok_def timeout_seconds)
    then have "t \<noteq> Write_timer" using expire(4) by auto
    then show ?thesis using assms(2) by (simp add: left_waiting_def expire)
  next
    case (act ev c')
    obtain c2 k where d: "dispatch e D (complete ev (connection_of s)) ev = Inr c2" and c': "c' = release_by k c2"
      using act(3) by (rule held_stepE)
    have "\<not> sock_open c'" using open_step [OF life act(3)] assms(2) by (auto simp: left_waiting_def)
    moreover have "queue c' = []"
      using dispatch_closed_queue [OF life_ok_complete [OF life] d] assms(2,4) c' by (simp add: left_waiting_def act)
    moreover have "err = Some Operation_aborted" if "ev = Ev_wait Write_timer err" for err
      using act(4) that assms(2) by (cases err) (auto simp: left_waiting_def)
    then have "Op_wait Write_timer \<in># pending c'"
      using wait_pending_step [OF life act(3) sub, of Write_timer] assms(2) waiting [OF wt, of Write_timer]
      by (auto simp: left_waiting_def)
    moreover have "wait (step_timer (clock s) (connection_of s) ev c' Write_timer (timer_of s Write_timer)) \<noteq> Due"
      using assms(2) by (auto simp: step_timer_def arm_def wait_fold wait_take_wait left_waiting_def split: event.splits)
    ultimately show ?thesis
      by (cases "wait (step_timer (clock s) (connection_of s) ev c' Write_timer (timer_of s Write_timer))")
        (auto simp: left_waiting_def act(2) step_timer_waiting)
  qed (use assms(2) in \<open>simp add: left_waiting_def\<close>)
qed

lemma left_waiting_run:
  assumes "steps (timed_step h e D) s fs s'" and "timed_inv es s" and "left_waiting s"
    and "list_all (\<lambda>ev. \<not> is_post ev) (events_done fs)"
  shows "left_waiting s' \<and> waits_ok s'"
  using assms
proof (induction rule: steps.induct)
  case (steps_nil s)
  then show ?case by (simp add: timed_inv_def)
next
  case (steps_snoc s fs u x v)
  then have "left_waiting u" by simp
  moreover obtain gs where i: "timed_inv gs u" using seconds_run [OF steps_snoc.hyps(1) steps_snoc.prems(1)] by blast
  ultimately have "left_waiting v" using left_waiting_step [OF _ _ steps_snoc.hyps(2)] steps_snoc.prems(3) by simp
  moreover have "waits_ok v" using timed.inv_step [OF i steps_snoc.hyps(2)] by (simp add: timed_inv_def)
  ultimately show ?case ..
qed

text \<open>C22: A closed connection is never freed: once the connection is closed with nothing queued, the
  wait on the writer's timer, unless it is due, has no deadline and nothing cancels
  it: it stays pending, and keeps the writer alive, until a packet is posted, however long the server runs.\<close>

theorem closed_writer_waits_forever:
  assumes "timed_fresh s0" and "steps (timed_step h e D) s0 es s"
    and "\<not> sock_open (connection_of s)" and "queue (connection_of s) = []"
    and "wait (timer_of s Write_timer) \<noteq> Due" and "Op_wait Write_timer \<in># pending (connection_of s)"
    and "steps (timed_step h e D) s fs s'" and "list_all (\<lambda>ev. \<not> is_post ev) (events_done fs)"
  shows "Op_wait Write_timer \<in># pending (connection_of s') \<and>
    (\<nexists>s''. timed_step h e D s' (T_expire Write_timer) s'')"
proof -
  have i: "timed_inv es s" using timed.inv_steps [OF assms(1,2)] .
  then have "wait (timer_of s Write_timer) \<noteq> No_wait" using assms(6) by (auto simp: timed_inv_def waits_ok_def)
  then have "left_waiting s" using assms(3-5) by (cases "wait (timer_of s Write_timer)") (simp_all add: left_waiting_def)
  then have l: "left_waiting s'" "waits_ok s'" using left_waiting_run [OF assms(7) i] assms(8) by simp_all
  have "deadlines_ok s'"
    using timed.inv_steps [OF assms(1) steps_append [OF assms(7,2)]] by (simp add: timed_inv_def)
  then have "deadline (timer_of s' Write_timer) = None"
    using l by (simp add: left_waiting_def deadlines_ok_def timeout_seconds)
  then have "\<nexists>s''. timed_step h e D s' (T_expire Write_timer) s''" by (auto elim: timed_expireE)
  moreover have "wait (timer_of s' Write_timer) \<noteq> No_wait" using l by (auto simp: left_waiting_def)
  then have "Op_wait Write_timer \<in># pending (connection_of s')" using waiting [OF l(2)] by blast
  ultimately show ?thesis by blast
qed

theorem closed_writer_waits_forever_witness:
  "\<exists>s s'. timed_step False Little demo_archive (start_timed 0 demo_connection)
       (T_do (Ev_read_length (Some (Asio_failure 0)) [])) s \<and>
     timed_step False Little demo_archive s (T_pass 1000000) s' \<and> Op_wait Write_timer \<in># pending (connection_of s')"
proof -
  let ?s0 = "start_timed 0 demo_connection" and ?step = "timed_step False Little demo_archive"
    and ?ev = "Ev_read_length (Some (Asio_failure 0)) []"
  let ?c = "release (stop_conn (complete ?ev demo_connection))"
  have l: "life_ok demo_connection" by (rule life_fresh [OF demo_facts(1)])
  then have "owned (complete ?ev demo_connection)" "on_close_set (complete ?ev demo_connection)"
    by (simp_all add: life_ok_def)
  then have st: "conn_step Little demo_archive demo_connection ?ev ?c"
    using demo_facts by (simp add: conn_step_iff enabled_def fire_def read_length_handler_outcome)
  let ?s1 = "?s0\<lparr>timer_of := \<lambda>t. step_timer (clock ?s0) demo_connection ?ev ?c t (timer_of ?s0 t), connection_of := ?c\<rparr>"
  have 1: "?step ?s0 (T_do ?ev) ?s1"
    using timed_step.act [of False Little demo_archive ?s0 ?ev ?c] conn_held [OF st] by (simp add: start_timed_def)
  have 2: "?step ?s1 (T_pass 1000000) (?s1\<lparr>clock := clock ?s1 + 1000000\<rparr>)" by (rule timed_step.pass) simp
  have "Op_wait Write_timer \<in># pending ?c" using demo_facts(7) by (simp add: complete_def)
  moreover have "wait (timer_of ?s1 Write_timer) \<noteq> Due"
    by (simp add: step_timer_def arm_def wait_fold start_timed_def start_timer_def)
  moreover have "\<not> sock_open ?c" using demo_facts(4) by (auto dest!: release_open)
  moreover have "queue ?c = []" by (simp add: demo_connection_def fresh_connection_def)
  ultimately have "Op_wait Write_timer \<in># pending (connection_of (?s1\<lparr>clock := clock ?s1 + 1000000\<rparr>))"
    using closed_writer_waits_forever [OF demo_timed_fresh steps_single [where step = ?step, OF 1] _ _ _ _
        steps_single [where step = ?step, OF 2]] by (simp add: events_done_def)
  with 1 2 show ?thesis by blast
qed

end
