(* ===== verification/Connection_Wf.thy ===== *)
theory Connection_Wf
  imports Timers_Props
begin

section \<open>Well-formed connections\<close>

text \<open>
  The representation invariant of a connection, as one computable predicate: what the classes
  \<open>Session\<close>, \<open>Reader\<close> and \<open>Writer\<close> may assume of their members whenever a handler starts.
\<close>

definition expiry_of :: "timer_id \<Rightarrow> connection \<Rightarrow> expiry" where
  "expiry_of t c =
     (case t of
        Idle_timer \<Rightarrow> idle_expiry c
      | Read_timer \<Rightarrow> rd_expiry (conn_reader c)
      | Write_timer \<Rightarrow> wr_expiry (conn_writer c))"

definition expiries_ok :: "connection \<Rightarrow> bool" where
  "expiries_ok c \<longleftrightarrow> list_all (\<lambda>t. expiry_of t c = timeout t c) timers"

definition connection_wf :: "connection \<Rightarrow> bool" where
  "connection_wf c \<longleftrightarrow>
     owned c \<and> on_close_set c \<and>
     (sock_open c \<longleftrightarrow> \<not> stopped c) \<and> (in_sessions c \<longleftrightarrow> \<not> stopped c) \<and> (sock_open c \<longrightarrow> alive c) \<and>
     (sock_open c \<longrightarrow> reads c \<noteq> {#} \<and> list_all (\<lambda>t. Op_wait t \<in># pending c) timers \<and>
        (writes c = {#} \<longleftrightarrow> queue c = [])) \<and>
     size (waits c) \<le> 3 \<and> size (reads c) \<le> 1 \<and> size (writes c) \<le> 1 \<and>
     expiries_ok c \<and>
     (reads c \<noteq> {#} \<and> reads c \<noteq> {#Op_read_length#} \<longrightarrow>
        rd_packet_length (conn_reader c) \<le> MAX_PACKET_SIZE \<and>
        length (rd_packet_buffer (conn_reader c)) = unat (rd_packet_length (conn_reader c)) + 4)"

subsection \<open>The deadlines kept in the state\<close>

lemma expiry_updates:
  "expiry_of t (release_by k c) = expiry_of t c" "expiry_of t (complete ev c) = expiry_of t c"
  "timeout t (complete ev c) = timeout t c"
  by (cases t; simp add: expiry_of_def timeout_def)+

lemma dispatch_expiries:
  assumes "life_ok c" and "dispatch e D c ev = Inr c'" and "expiries_ok c"
  shows "expiries_ok c'"
  using assms(2,3) life_ok_owned [OF assms(1)]
  by (cases "alive c"; cases "(e, D, c, ev)" rule: dispatch.cases)
    (auto simp: handler_outcome rbind_eq_Inr Let_def expiries_ok_def timers_def expiry_of_def timeout_def
      begin_length_def begin_body_def begin_write_def split: if_splits option.splits list.splits)

lemma expiries_step:
  assumes "life_ok c" and "held_step h e D c ev c'" and "expiries_ok c"
  shows "expiries_ok c'"
  using assms(2) dispatch_expiries [OF life_ok_complete [OF assms(1)]] assms(3)
  by (elim held_stepE) (auto simp: expiries_ok_def expiry_updates)

definition wf_inv :: "event list \<Rightarrow> connection \<Rightarrow> bool" where
  "wf_inv es c \<longleftrightarrow> conn_inv es c \<and> expiries_ok c \<and>
     (sock_open c \<longrightarrow> list_all (\<lambda>t. Op_wait t \<in># pending c) timers)"

interpretation wf: safe_machine "held_step h e D" fresh wf_inv for h e D
proof
  show "fresh c \<Longrightarrow> wf_inv [] c" for c
    using conn_inv_fresh [of c]
    by (auto simp: wf_inv_def fresh_def fresh_connection_def expiries_ok_def timers_def expiry_of_def timeout_def)
  show "wf_inv (es @ [ev]) c'" if inv: "wf_inv es c" and st: "held_step h e D c ev c'" for es c ev c'
  proof -
    have f: "conn_inv es c" and life: "life_ok c" and sub: "waits c \<subseteq># {#Op_wait Idle_timer, Op_wait Read_timer, Op_wait Write_timer#}"
      using inv by (auto simp: wf_inv_def dest: conn_inv_facts)
    have "list_all (\<lambda>t. Op_wait t \<in># pending c') timers" if "sock_open c'"
      using open_step [OF life st that] wait_pending_step [OF life st sub] inv
      by (auto simp: wf_inv_def timers_def)
    then show ?thesis
      using held.inv_step [OF f st] expiries_step [OF life st] inv by (simp add: wf_inv_def)
  qed
qed

text \<open>C14: Connections stay well-formed: after any run, the flags of the session agree, an open
  connection waits on its three timers and is reading, and it is writing exactly while its queue
  holds a packet; no handler is pending twice, so at most five operations besides posted packets
  are; the buffer of the reader has the size of the packet being read; and the deadlines set last
  are the configured ones, the writer's none while its queue is empty.\<close>

theorem connections_well_formed:
  assumes "fresh c0" and "steps (conn_step e D) c0 es c"
  shows "connection_wf c"
proof -
  have i: "wf_inv es c" using wf.inv_steps [where h = False, unfolded held_same, OF assms] .
  then have f: "life_ok c" "waits c \<subseteq># {#Op_wait Idle_timer, Op_wait Read_timer, Op_wait Write_timer#}"
    "read_ok c" "write_ok c" by (auto simp: wf_inv_def dest: conn_inv_facts)
  have "size (waits c) \<le> 3" using size_mset_mono [OF f(2)] by simp
  moreover have "size (reads c) \<le> 1" "size (writes c) \<le> 1" using f by (auto simp: read_ok_def write_ok_def)
  ultimately show ?thesis
    using i f unfolding connection_wf_def by (auto simp: wf_inv_def life_ok_def read_ok_def write_ok_def)
qed

theorem connections_well_formed_witness:
  "\<exists>c. steps (conn_step Little demo_archive) demo_connection [Ev_wait Read_timer None] c \<and> connection_wf c"
proof -
  have "life_ok demo_connection" by (rule life_fresh [OF demo_facts(1)])
  then have st: "conn_step Little demo_archive demo_connection (Ev_wait Read_timer None)
      (release (stop_conn (complete (Ev_wait Read_timer None) demo_connection)))"
    by (rule expiry_step) (simp_all add: demo_facts)
  note run = steps_single [where step = "conn_step Little demo_archive", OF st]
  from run connections_well_formed [OF demo_facts(1) run] show ?thesis by blast
qed

end
