(* ===== verification/Stream_Run.thy ===== *)
theory Stream_Run
  imports Connection_Wf
begin

section \<open>A connection left to work\<close>

text \<open>
  \<open>next_read\<close> is the read of a connection that the bytes at hand complete, and \<open>feed\<close> completes
  reads, by the handlers of the reader, until the bytes do not suffice or the socket is closed. The
  reference \<open>read_stream\<close> walks over the same bytes frame by frame, without a connection. At the end,
  the writer is left to complete its writes.
\<close>

subsection \<open>The reader at work\<close>

definition next_read :: "connection \<Rightarrow> bytes \<Rightarrow> (event \<times> bytes) option" where
  "next_read c bs =
     (let n = unat (rd_packet_length (conn_reader c)) in
      if \<not> sock_open c then None
      else if Op_read_length \<in># pending c
      then (if 4 \<le> length bs then Some (Ev_read_length None (take 4 bs), drop 4 bs) else None)
      else if Op_read_body n \<in># pending c \<and> n \<le> length bs
      then Some (Ev_read_body n None (take n bs), drop n bs)
      else None)"

fun is_body :: "async_op \<Rightarrow> bool" where
  "is_body (Op_read_body _) = True"
| "is_body _ = False"

abbreviation bodies_pending :: "connection \<Rightarrow> nat" where
  "bodies_pending c \<equiv> size (filter_mset is_body (pending c))"

text \<open>A body of no bytes consumes nothing, but there is one read of a body less.\<close>

lemma session_stop_pending: "session_stop c = Inr c' \<Longrightarrow> pending c' = pending c"
  by (auto simp: session_stop_def session_on_close_def emit_def rbind_eq_Inr Let_def split: if_splits)

lemma route_bodies: "route D c p = Inr c' \<Longrightarrow> filter_mset is_body (pending c') = filter_mset is_body (pending c)"
  by (auto simp: route_def auth_handle_def rbind_eq_Inr Let_def start_op_def split: packet_type.splits option.splits if_splits)

lemma body_handler_bodies:
  assumes "read_body_handler e D None data c = Inr c'"
  shows "filter_mset is_body (pending c') = filter_mset is_body (pending c)"
  using assms
  by (auto simp: read_body_handler_def use_socket_def on_packet_def rbind_eq_Inr Let_def read_length_def
      dest!: route_bodies split: if_splits)

lemma fire_body_decreases:
  assumes "fire e D c (Ev_read_body n None data) = Inr c'" and "Op_read_body n \<in># pending c"
  shows "bodies_pending c' < bodies_pending c"
proof -
  have "filter_mset is_body (pending c') = filter_mset is_body (pending c) - {#Op_read_body n#}"
    using assms(1) by (auto simp: fire_def rbind_eq_Inr complete_def dest!: body_handler_bodies)
  then show ?thesis using assms(2) nonempty_has_size [of "filter_mset is_body (pending c)"]
    by (auto simp: size_Diff_singleton_if dest: multi_member_split)
qed

function feed :: "endian \<Rightarrow> archive_reader \<Rightarrow> connection \<Rightarrow> bytes \<Rightarrow> (connection \<times> bytes) res" where
  "feed e D c bs =
     (case next_read c bs of
        None \<Rightarrow> Inr (c, bs)
      | Some (ev, rest) \<Rightarrow> rbind (fire e D c ev) (\<lambda>c'. feed e D c' rest))"
  by pat_completeness auto

termination
proof (relation "measures [\<lambda>(e, D, c, bs). length bs, \<lambda>(e, D, c, bs). bodies_pending c]", goal_cases)
  case (2 e D c bs p ev rest c')
  then show ?case
    using fire_body_decreases [of e D c "unat (rd_packet_length (conn_reader c))" "take (unat (rd_packet_length (conn_reader c))) bs" c']
    by (auto simp: next_read_def Let_def split: if_splits)
qed simp

declare feed.simps [simp del]

text \<open>How the bytes are cut into segments on their way does not matter.\<close>

lemma next_read_append:
  "next_read c bs = Some (ev, rest) \<Longrightarrow> next_read c (bs @ bs') = Some (ev, rest @ bs')"
  by (auto simp: next_read_def Let_def split: if_splits)

lemma feed_append:
  "feed e D c (bs @ bs') = rbind (feed e D c bs) (\<lambda>(c', rest). feed e D c' (rest @ bs'))"
proof (induction e D c bs rule: feed.induct)
  case (1 e D c bs)
  show ?case
  proof (cases "next_read c bs")
    case None
    then show ?thesis by (simp add: feed.simps [of e D c bs])
  next
    case (Some p)
    obtain ev rest where p: "p = (ev, rest)" by (cases p)
    from Some p have "next_read c (bs @ bs') = Some (ev, rest @ bs')" by (simp add: next_read_append)
    then show ?thesis using 1 [OF Some [unfolded p] refl] Some p
      by (cases "fire e D c ev") (simp_all add: feed.simps [of e D c bs] feed.simps [of e D c "bs @ bs'"])
  qed
qed

subsection \<open>The reference\<close>

datatype verdict = Needs_more | Too_long | Bad_packet

function read_stream :: "endian \<Rightarrow> bytes \<Rightarrow> bytes list \<times> verdict \<times> bytes" where
  "read_stream e bs =
     (let n = be_val (take 4 bs); frame = take (4 + n) bs; rest = drop (4 + n) bs in
      if length bs < 4 then ([], Needs_more, bs)
      else if 1049600 < n then ([], Too_long, drop 4 bs)
      else if length bs < 4 + n then ([], Needs_more, bs)
      else if \<not> acceptable e frame then ([], Bad_packet, rest)
      else let (frames, v, left) = read_stream e rest in (frame # frames, v, left))"
  by pat_completeness auto

termination
  by (relation "measure (length \<circ> snd)") auto

declare read_stream.simps [simp del]

subsection \<open>The two reads of a frame\<close>

lemma feed_waits: "sock_open c \<Longrightarrow> Op_read_length \<in># pending c \<Longrightarrow> length bs < 4 \<Longrightarrow> feed e D c bs = Inr (c, bs)"
  by (simp add: feed.simps [of e D c bs] next_read_def)

lemma feed_length:
  "sock_open c \<Longrightarrow> Op_read_length \<in># pending c \<Longrightarrow> 4 \<le> length bs \<Longrightarrow>
    feed e D c bs = rbind (fire e D c (Ev_read_length None (take 4 bs))) (\<lambda>c'. feed e D c' (drop 4 bs))"
  by (simp add: feed.simps [of e D c bs] next_read_def)

lemma feed_closed: "\<not> sock_open c \<Longrightarrow> feed e D c bs = Inr (c, bs)"
  by (simp add: feed.simps [of e D c bs] next_read_def)

lemma feed_body:
  assumes "sock_open c" and "reads c = {#Op_read_body n#}" and "n = unat (rd_packet_length (conn_reader c))"
  shows "feed e D c bs = (if n \<le> length bs
    then rbind (fire e D c (Ev_read_body n None (take n bs))) (\<lambda>c'. feed e D c' (drop n bs)) else Inr (c, bs))"
proof -
  have "Op_read_length \<notin># reads c" "Op_read_body n \<in># reads c" using assms(2) by simp_all
  then have "Op_read_length \<notin># pending c" "Op_read_body n \<in># pending c" by (simp_all add: reads_def)
  then show ?thesis using assms(1,3) by (simp add: feed.simps [of e D c bs] next_read_def Let_def)
qed

text \<open>Every connection that \<open>feed\<close> reaches is one of a run.\<close>

lemma next_read_enabled: "next_read c bs = Some (ev, rest) \<Longrightarrow> enabled c ev"
  by (auto simp: next_read_def Let_def enabled_def split: if_splits)

lemma feed_run: "feed e D c bs = Inr (c', rest) \<Longrightarrow> \<exists>es. steps (conn_step e D) c es c'"
proof (induction e D c bs rule: feed.induct)
  case (1 e D c bs)
  show ?case
  proof (cases "next_read c bs")
    case None
    then show ?thesis using "1.prems" steps_nil by (fastforce simp: feed.simps [of e D c bs])
  next
    case (Some p)
    obtain ev bs' where p: "p = (ev, bs')" by (cases p)
    with Some "1.prems" obtain d where d: "fire e D c ev = Inr d" "feed e D d bs' = Inr (c', rest)"
      by (auto simp: feed.simps [of e D c bs] rbind_eq_Inr)
    then obtain es where "steps (conn_step e D) d es c'" using "1.IH" [OF Some [unfolded p] refl] by blast
    moreover have "conn_step e D c ev d" using d next_read_enabled Some p by (simp add: conn_step_iff)
    ultimately show ?thesis using steps_Cons [of "conn_step e D"] by blast
  qed
qed

lemma feed_header:
  assumes "fresh c0" and "steps (conn_step e D) c0 es c" and "sock_open c" and "Op_read_length \<in># pending c"
    and "4 \<le> length bs" and "n = be_val (take 4 bs)" and "n \<le> 1049600"
  obtains c1 where "steps (conn_step e D) c0 (es @ [Ev_read_length None (take 4 bs)]) c1" and "sock_open c1"
    and "reads c1 = {#Op_read_body n#}" and "n = unat (rd_packet_length (conn_reader c1))"
    and "delivered c1 = delivered c" and "partial_packet c1 = take 4 bs"
    and "feed e D c bs = feed e D c1 (drop 4 bs)"
proof -
  let ?hd = "take 4 bs" let ?ev = "Ev_read_length None ?hd"
  let ?c1 = "begin_body (of_nat n) (complete ?ev c)"
  have f1: "fire e D c ?ev = Inr ?c1"
    using length_fire [OF run_facts(1) [OF assms(1,2)] assms(3)] assms(5-7) by simp
  then have "conn_step e D c ?ev ?c1" using assms(3-5) by (simp add: conn_step_iff enabled_def)
  note run = steps_snoc [OF assms(2) this]
  have len: "n = unat (rd_packet_length (conn_reader ?c1))"
    using assms(7) by (simp add: begin_body_def unat_of_nat_u32)
  have "Op_read_body n \<in># pending ?c1" using assms(7) by (simp add: begin_body_def unat_of_nat_u32)
  then have r: "reads ?c1 = {#Op_read_body n#}"
    using reads_only [OF run_facts(2) [OF assms(1) run]] by (simp add: reads_def)
  have "be_bytes 4 n = ?hd" using assms(5,6) by (simp add: store_load)
  then have "partial_packet ?c1 = ?hd" by (simp add: partial_packet_def r len [symmetric])
  then show thesis
    using that [OF run _ r len] assms(3) feed_length [OF assms(3-5)] f1 by (simp add: begin_body_def)
qed

lemma feed_frame:
  assumes "fresh c0" and "steps (conn_step e D) c0 es c" and "sock_open c" and "Op_read_length \<in># pending c"
    and "4 \<le> length bs" and "n = be_val (take 4 bs)" and "n \<le> 1049600" and "4 + n \<le> length bs"
  obtains c2 where "feed e D c bs =
      rbind (packet_from_bytes e (take (4 + n) bs)) (\<lambda>p. feed e D c2 (drop (4 + n) bs))"
    and "isl (packet_from_bytes e (take (4 + n) bs)) \<or> (\<exists>es'. steps (conn_step e D) c0 es' c2)"
    and "sock_open c2" and "Op_read_length \<in># pending c2"
    and "delivered c2 = delivered c @ [take (4 + n) bs]"
proof -
  let ?body = "take n (drop 4 bs)" let ?ev = "Ev_read_body n None ?body"
  obtain c1 where run: "steps (conn_step e D) c0 (es @ [Ev_read_length None (take 4 bs)]) c1" and o: "sock_open c1"
    and r: "reads c1 = {#Op_read_body n#}" and len: "n = unat (rd_packet_length (conn_reader c1))"
    and d: "delivered c1 = delivered c" and feed: "feed e D c bs = feed e D c1 (drop 4 bs)"
    by (rule feed_header [OF assms(1-7)])
  let ?c2 = "begin_length (emit (Eff_deliver (take (4 + n) bs))
      (upd_reader (\<lambda>r. r\<lparr>rd_packet_buffer := []\<rparr>) (complete ?ev c1)))"
  note f = run_facts [OF assms(1) run]
  have lb: "length ?body = n" using assms(8) by simp
  have "be_bytes 4 n = take 4 bs" using assms(5,6) by (simp add: store_load)
  then have frame: "frame_encode ?body = take (4 + n) bs"
    by (simp only: frame_encode_def lb take_add)
  have "Op_read_body n \<in># reads c1" using r by simp
  then have p: "Op_read_body n \<in># pending c1" by (simp add: reads_def)
  have fire: "fire e D c1 ?ev = rbind (packet_from_bytes e (take (4 + n) bs)) (\<lambda>p. Inr ?c2)"
    using body_fire [OF f(1) o f(2), of ?body e D] p frame by (simp only: lb)
  have "n \<le> length (drop 4 bs)" "drop n (drop 4 bs) = drop (4 + n) bs" using assms(8) by (simp_all add: add.commute)
  then have "feed e D c bs = rbind (packet_from_bytes e (take (4 + n) bs)) (\<lambda>p. feed e D ?c2 (drop (4 + n) bs))"
    using feed_body [OF o r len, of e D "drop 4 bs"] by (simp only: feed fire rbind_assoc rbind_Inr if_True)
  moreover have "conn_step e D c1 ?ev ?c2" if "\<not> isl (packet_from_bytes e (take (4 + n) bs))"
    using that fire p lb by (cases "packet_from_bytes e (take (4 + n) bs)") (simp_all add: conn_step_iff enabled_def)
  ultimately show thesis
    using that [of ?c2] steps_snoc [OF run] o d by (auto simp: begin_length_def)
qed

subsection \<open>The connection decides the stream as the reference does\<close>

lemma acceptable_frame:
  "length frame < 4294967296 \<Longrightarrow> acceptable e frame \<longleftrightarrow> \<not> isl (packet_from_bytes e frame)"
  using packet_from_bytes_Inr_iff [of frame e] by (cases "packet_from_bytes e frame") auto

definition feed_result :: "connection \<Rightarrow> (connection \<times> bytes) res \<Rightarrow> bytes list \<times> verdict \<times> bytes \<Rightarrow> bool" where
  "feed_result c r = (\<lambda>(frames, v, left).
     case v of
       Needs_more \<Rightarrow> (\<exists>c' rest. r = Inr (c', rest) \<and> sock_open c' \<and>
         delivered c' = delivered c @ frames \<and> partial_packet c' @ rest = left)
     | Too_long \<Rightarrow> (\<exists>c'. r = Inr (c', left) \<and> \<not> sock_open c' \<and> stopped c' \<and> delivered c' = delivered c @ frames)
     | Bad_packet \<Rightarrow> (\<exists>msg. r = Inl (Invalid_argument msg)))"

lemma feed_stops:
  assumes "fresh c0" and "steps (conn_step e D) c0 es c" and "sock_open c" and "Op_read_length \<in># pending c"
    and "length bs < 4 \<or> 1049600 < be_val (take 4 bs) \<or> length bs < 4 + be_val (take 4 bs)"
  shows "feed_result c (feed e D c bs) (read_stream e bs)"
proof -
  let ?n = "be_val (take 4 bs)"
  note f = run_facts [OF assms(1,2)]
  consider (short) "length bs < 4" | (long) "4 \<le> length bs" "1049600 < ?n"
    | (part) "4 \<le> length bs" "?n \<le> 1049600" "length bs < 4 + ?n"
    using assms(5) by linarith
  then show ?thesis
  proof cases
    case short
    have "partial_packet c = []" using read_pending_alone [OF f(2) assms(4)] by (simp add: partial_packet_def)
    then show ?thesis using short assms(1-4)
      by (simp add: read_stream.simps [of e bs] feed_waits feed_result_def)
  next
    case long
    let ?c = "complete (Ev_read_length None (take 4 bs)) c"
    let ?c1 = "release (stop_conn (upd_reader (\<lambda>r. r\<lparr>rd_packet_length := of_nat ?n\<rparr>) ?c))"
    have cl: "\<not> sock_open ?c1" using f(1) assms(3) by (auto simp: life_ok_def stop_conn_def release_def)
    have "feed e D c bs = Inr (?c1, drop 4 bs)"
      using feed_length [OF assms(3,4) long(1)] length_fire [OF f(1) assms(3), of "take 4 bs" e D] long
      by (simp add: feed_closed [OF cl])
    then show ?thesis using long cl by (simp add: read_stream.simps [of e bs] feed_result_def)
  next
    case part
    obtain c1 where "sock_open c1" "reads c1 = {#Op_read_body ?n#}" "?n = unat (rd_packet_length (conn_reader c1))"
      "delivered c1 = delivered c" "partial_packet c1 = take 4 bs" "feed e D c bs = feed e D c1 (drop 4 bs)"
      by (rule feed_header [OF assms(1-4) part(1) refl part(2)]) 
    then show ?thesis using part feed_body [of c1 ?n e D "drop 4 bs"]
      by (auto simp: read_stream.simps [of e bs] feed_result_def)
  qed
qed

lemma feed_decides:
  assumes "fresh c0" and "steps (conn_step e D) c0 es c" and "sock_open c" and "Op_read_length \<in># pending c"
  shows "feed_result c (feed e D c bs) (read_stream e bs)"
  using assms
proof (induction e bs arbitrary: c es rule: read_stream.induct)
  case (1 e bs)
  let ?n = "be_val (take 4 bs)" let ?frame = "take (4 + ?n) bs" let ?rest = "drop (4 + ?n) bs"
  show ?case
  proof (cases "4 \<le> length bs \<and> ?n \<le> 1049600 \<and> 4 + ?n \<le> length bs")
    case True
    then have whole: "4 \<le> length bs" "?n \<le> 1049600" "4 + ?n \<le> length bs" by simp_all
    obtain c2 where feed: "feed e D c bs = rbind (packet_from_bytes e ?frame) (\<lambda>p. feed e D c2 ?rest)"
      and run: "isl (packet_from_bytes e ?frame) \<or> (\<exists>es'. steps (conn_step e D) c0 es' c2)"
      and c2: "sock_open c2" "Op_read_length \<in># pending c2" "delivered c2 = delivered c @ [?frame]"
      by (rule feed_frame [OF "1.prems" whole(1) refl whole(2,3)])
    have acc: "acceptable e ?frame \<longleftrightarrow> \<not> isl (packet_from_bytes e ?frame)"
      using whole by (intro acceptable_frame) simp
    show ?thesis
    proof (cases "packet_from_bytes e ?frame")
      case (Inl x)
      then show ?thesis using whole acc feed packet_from_bytes_exn [OF Inl]
        by (auto simp: read_stream.simps [of e bs] Let_def feed_result_def)
    next
      case (Inr q)
      then obtain es' where es': "steps (conn_step e D) c0 es' c2" using run by auto
      have "\<not> length bs < 4" "\<not> 1049600 < ?n" "\<not> length bs < 4 + ?n" "\<not> \<not> acceptable e ?frame"
        using whole acc Inr by simp_all
      note ih = "1.IH" [OF refl refl refl this "1.prems"(1) es' c2(1,2)]
      obtain frames v left where rs: "read_stream e ?rest = (frames, v, left)" by (cases "read_stream e ?rest")
      then have "read_stream e bs = (?frame # frames, v, left)"
        using whole acc Inr by (simp add: read_stream.simps [of e bs] Let_def)
      then show ?thesis using ih Inr feed c2(3) rs
        by (cases v) (auto simp: feed_result_def)
    qed
  next
    case False
    then show ?thesis by (intro feed_stops [OF "1.prems"]) auto
  qed
qed

text \<open>Segments that arrive one after the other, each fed with what the ones before left over.\<close>

fun feed_segments :: "endian \<Rightarrow> archive_reader \<Rightarrow> connection \<Rightarrow> bytes \<Rightarrow> bytes list \<Rightarrow> (connection \<times> bytes) res" where
  "feed_segments e D c rest [] = feed e D c rest"
| "feed_segments e D c rest (s # ss) =
     rbind (feed e D c rest) (\<lambda>(c', rest'). feed_segments e D c' (rest' @ s) ss)"

lemma segments_do_not_matter: "feed_segments e D c rest segments = feed e D c (rest @ concat segments)"
proof (induction segments arbitrary: c rest)
  case (Cons s ss)
  then show ?case by (simp add: feed_append [of e D c rest] case_prod_beta')
qed simp

text \<open>C3: The reader decides every byte stream as the reference does: given any bytes, a connection that
  waits for a length delivers exactly the frames of the stream before the first oversized or
  malformed one; it then waits with the unfinished frame, or has closed its socket behind the
  oversized length, or ends in \<open>invalid_argument\<close>. In whatever segments the bytes come, the
  result is the same.\<close>

theorem reader_decides_stream:
  assumes "fresh c0" and "steps (conn_step e D) c0 es c" and "sock_open c" and "Op_read_length \<in># pending c"
    and "concat segments = bs"
  shows "feed_segments e D c [] segments = feed e D c bs \<and>
    (case read_stream e bs of
       (frames, Needs_more, left) \<Rightarrow> \<exists>c' rest. feed e D c bs = Inr (c', rest) \<and> sock_open c' \<and>
         delivered c' = delivered c @ frames \<and> partial_packet c' @ rest = left
     | (frames, Too_long, left) \<Rightarrow> \<exists>c'. feed e D c bs = Inr (c', left) \<and> \<not> sock_open c' \<and> stopped c' \<and>
         delivered c' = delivered c @ frames
     | (frames, Bad_packet, left) \<Rightarrow> \<exists>msg. feed e D c bs = Inl (Invalid_argument msg))"
  using feed_decides [OF assms(1-4), of bs] assms(5)
  by (auto simp: feed_result_def segments_do_not_matter split: prod.splits verdict.splits)

lemma demo_stream:
  "read_stream e (frame_encode demo_body @ [0,16,4,1, 9]) = ([frame_encode demo_body], Too_long, [9])"
proof -
  have l: "be_val [0,0,0,10] = 10" "be_val [0,16,4,1] = 1049601" by (simp_all add: load_def)
  have "read_stream e [0,16,4,1, 9] = ([], Too_long, [9])"
    by (simp add: read_stream.simps [of e "[0,16,4,1, 9]"] l)
  then show ?thesis
    using demo_acceptable [of e]
    by (simp add: demo_frame read_stream.simps [of e "0 # 0 # _"] l)
qed

theorem reader_decides_stream_witness:
  "\<exists>c'. feed Little demo_archive demo_connection (frame_encode demo_body @ [0,16,4,1, 9]) = Inr (c', [9]) \<and>
     \<not> sock_open c' \<and> delivered c' = [frame_encode demo_body]"
proof -
  let ?bs = "frame_encode demo_body @ [0,16,4,1, 9]"
  have "concat [?bs] = ?bs" by simp
  note r = conjunct2 [OF reader_decides_stream [OF demo_facts(1) steps_nil demo_facts(2,3) this, of Little demo_archive]]
  have "delivered demo_connection = []" by (simp add: demo_connection_def fresh_connection_def delivered_def)
  with r show ?thesis by (simp only: demo_stream prod.case verdict.case append_Nil) blast
qed

subsection \<open>The writer at work\<close>

lemma write_fire:
  assumes "life_ok c" and "sock_open c" and "queue c = b # q"
  shows "fire e D c (Ev_write b None) = Inr
    (let c1 = upd_writer (\<lambda>w. w\<lparr>wr_queue := q\<rparr>) (complete (Ev_write b None) c) in
     case q of [] \<Rightarrow> set_write_expiry Never c1 | b' # _ \<Rightarrow> begin_write b' c1)"
proof -
  let ?c = "complete (Ev_write b None) c"
  have o: "owned ?c" "on_close_set ?c" "alive ?c" "in_sessions ?c" "sock_open ?c" "queue ?c = b # q"
    using assms by (simp_all add: life_ok_def)
  have "release (set_write_expiry x (upd_writer f ?c)) = set_write_expiry x (upd_writer f ?c)"
    "release (begin_write d (upd_writer f ?c)) = begin_write d (upd_writer f ?c)" for x f d
    using o by (simp_all add: release_def held_def begin_write_def)
  then show ?thesis using o by (cases q) (simp_all add: fire_def write_handler_outcome Let_def)
qed

lemma drain_run:
  assumes "fresh c0" and "steps (conn_step e D) c0 es c" and "sock_open c"
  shows "\<exists>c'. steps (conn_step e D) c (map (\<lambda>b. Ev_write b None) (queue c)) c' \<and> sock_open c' \<and> queue c' = []"
  using assms
proof (induction "queue c" arbitrary: c es)
  case Nil
  then show ?case using steps_nil [of "conn_step e D" c] by (intro exI [of _ c]) simp
next
  case (Cons b q)
  note f = run_facts [OF Cons.prems(1,2)]
  let ?ev = "Ev_write b None"
  obtain d where d: "fire e D c ?ev = Inr d" "queue d = q" "sock_open d"
    using write_fire [OF f(1) Cons.prems(3) Cons.hyps(2) [symmetric], of e D] Cons.prems(3)
    by (cases q) (auto simp: Let_def begin_write_def)
  have "Op_write b \<in># writes c" using f(3) Cons.prems(3) Cons.hyps(2) [symmetric] by (simp add: write_ok_def)
  then have st: "conn_step e D c ?ev d" using d(1) by (simp add: conn_step_iff enabled_def writes_def)
  from Cons.hyps(1) [OF d(2) [symmetric] Cons.prems(1) steps_snoc [OF Cons.prems(2) st] d(3)]
  obtain c' where c': "steps (conn_step e D) d (map (\<lambda>b. Ev_write b None) (queue d)) c'" "sock_open c'" "queue c' = []"
    by blast
  have "queue c = b # queue d" using Cons.hyps(2) d(2) by simp
  then show ?case using steps_Cons [of "conn_step e D", OF st c'(1)] c'(2,3) by (intro exI [of _ c']) simp
qed

text \<open>C9: Everything posted is sent: from any open connection, if the peer takes the bytes, one completed
  write for each packet of the queue, in order, empties it; by then every packet ever posted has
  been written, once and in the order of posting, no write is in progress, the connection is
  still open, and the deadline of the writer is removed.\<close>

theorem writer_drains:
  assumes "fresh c0" and "steps (conn_step e D) c0 es c" and "sock_open c"
  shows "\<exists>c'. steps (conn_step e D) c (map (\<lambda>b. Ev_write b None) (queue c)) c' \<and> sock_open c' \<and>
    queue c' = [] \<and> started c' = posted es \<and> writes c' = {#} \<and> wr_expiry (conn_writer c') = Never"
proof -
  obtain c' where c': "steps (conn_step e D) c (map (\<lambda>b. Ev_write b None) (queue c)) c'" "sock_open c'" "queue c' = []"
    using drain_run [OF assms] by blast
  note run = steps_append [OF c'(1) assms(2)]
  have "posted (map (\<lambda>b. Ev_write b None) bs) = []" for bs by (induction bs) (simp_all add: posted_def)
  then have "posted (es @ map (\<lambda>b. Ev_write b None) (queue c)) = posted es" by (simp add: posted_def)
  then have "started c' = posted es" "writes c' = {#}"
    using run_facts(3,5) [OF assms(1) run] c'(3) by (auto simp: write_inv_def write_ok_def)
  moreover have "wr_expiry (conn_writer c') = Never"
    using wf.inv_steps [where h = False, unfolded held_same, OF assms(1) run] c'(3)
    by (simp add: wf_inv_def expiries_ok_def timers_def expiry_of_def timeout_def)
  ultimately show ?thesis using c' by blast
qed

theorem writer_drains_witness:
  "\<exists>c c'. steps (conn_step Little demo_archive) demo_connection [Ev_write_packet [1], Ev_post [1]] c \<and>
     steps (conn_step Little demo_archive) c [Ev_write [1] None] c' \<and> started c' = [[1]]"
proof -
  have "alive demo_connection" "in_sessions demo_connection" "queue demo_connection = []"
    by (simp_all add: demo_connection_def fresh_connection_def)
  from post_run [OF this, of Little demo_archive "[1]"]
  obtain c where r: "steps (conn_step Little demo_archive) demo_connection [Ev_write_packet [1], Ev_post [1]] c"
    "sock_open c" "queue c = [[1]]"
    using demo_facts(2) by (auto simp: begin_write_def demo_connection_def fresh_connection_def)
  from writer_drains [OF demo_facts(1) r(1,2)] r show ?thesis by (auto simp: posted_def)
qed

end
