(* ===== verification/Channel.thy ===== *)
theory Channel
  imports Timers_Props
begin

section \<open>A connection as a framed channel\<close>

text \<open>
  The specification of a connection, without buffers, queues of operations or timers: bytes come in
  and are cut into frames; packets are posted, and sent one after the other, each confirmed before
  the next; at some moment the channel is closed. The connection, with or without time, and kept
  alive from outside or not, simulates it.
\<close>

record channel =
  ch_open :: bool
  ch_in :: bytes
  ch_out :: "bytes list"
  ch_confirmed :: nat

datatype channel_event =
    C_in bytes
  | C_post bytes
  | C_confirm
  | C_close

inductive channel_step :: "channel \<Rightarrow> channel_event \<Rightarrow> channel \<Rightarrow> bool" where
  receive: "ch_open ch \<Longrightarrow> channel_step ch (C_in bs) (ch\<lparr>ch_in := ch_in ch @ bs\<rparr>)"
| post: "channel_step ch (C_post b) (ch\<lparr>ch_out := ch_out ch @ [b]\<rparr>)"
| confirm: "ch_open ch \<Longrightarrow> ch_confirmed ch < length (ch_out ch) \<Longrightarrow>
    channel_step ch C_confirm (ch\<lparr>ch_confirmed := ch_confirmed ch + 1\<rparr>)"
| close: "ch_open ch \<Longrightarrow> channel_step ch C_close (ch\<lparr>ch_open := False\<rparr>)"

definition channel_new :: channel where
  "channel_new = \<lparr>ch_open = True, ch_in = [], ch_out = [], ch_confirmed = 0\<rparr>"

text \<open>What a user of the channel sees: the frames received, and the packets sent.\<close>

definition ch_frames :: "channel \<Rightarrow> bytes list" where
  "ch_frames ch = fst (decode_all frame_decode (ch_in ch))"

definition ch_sent :: "channel \<Rightarrow> bytes list" where
  "ch_sent ch = take (ch_confirmed ch + 1) (ch_out ch)"

subsection \<open>The queue of the writer, step by step\<close>

fun queue_after :: "bool \<Rightarrow> event \<Rightarrow> bytes list \<Rightarrow> bytes list" where
  "queue_after is_open (Ev_post b) q = q @ [b]"
| "queue_after is_open (Ev_write b err) q = (if is_open \<and> err = None then tl q else q)"
| "queue_after is_open _ q = q"

lemma dispatch_queue:
  assumes "life_ok c" and "dispatch e D c ev = Inr c'"
  shows "queue c' = queue_after (sock_open c) ev (queue c)"
  using assms(2) life_ok_owned [OF assms(1)]
  by (cases "alive c"; cases "(e, D, c, ev)" rule: dispatch.cases)
    (auto simp: handler_outcome rbind_eq_Inr Let_def split: if_splits option.splits list.splits)

lemma queue_step:
  assumes "life_ok c" and "held_step h e D c ev c'"
  shows "queue c' = queue_after (sock_open c) ev (queue c)"
  using assms(2) dispatch_queue [OF life_ok_complete [OF assms(1)]] by (elim held_stepE) simp

subsection \<open>The simulation\<close>

fun inputs :: "bool \<Rightarrow> bool \<Rightarrow> event \<Rightarrow> channel_event list" where
  "inputs was_open is_open (Ev_read_length None data) = (if is_open then [C_in data] else [])"
| "inputs was_open is_open (Ev_read_body _ None data) = (if is_open then [C_in data] else [])"
| "inputs was_open is_open (Ev_post b) = [C_post b]"
| "inputs was_open is_open (Ev_write _ None) = (if was_open then [C_confirm] else [])"
| "inputs _ _ _ = []"

definition channel_label :: "connection \<Rightarrow> event \<Rightarrow> connection \<Rightarrow> channel_event list" where
  "channel_label c ev c' =
     inputs (sock_open c) (sock_open c') ev @ (if sock_open c \<and> \<not> sock_open c' then [C_close] else [])"

definition implements :: "bool \<Rightarrow> endian \<Rightarrow> archive_reader \<Rightarrow> connection \<Rightarrow> channel \<Rightarrow> bool" where
  "implements h e D c ch \<longleftrightarrow>
     ch_open ch = sock_open c \<and> ch_confirmed ch \<le> length (ch_out ch) \<and>
     queue c = drop (ch_confirmed ch) (ch_out ch) \<and>
     (\<exists>c0 es. fresh c0 \<and> steps (held_step h e D) c0 es c \<and> posted es = ch_out ch \<and>
        (sock_open c \<longrightarrow> received es = ch_in ch))"

lemma implementsI:
  assumes "fresh c0" and "steps (held_step h e D) c0 es c" and "n \<le> length (posted es)"
    and "queue c = drop n (posted es)" and "sock_open c \<Longrightarrow> received es = bs"
  shows "implements h e D c \<lparr>ch_open = sock_open c, ch_in = bs, ch_out = posted es, ch_confirmed = n\<rparr>"
  using assms by (auto simp: implements_def)

lemma channel_close:
  assumes "ch_open ch = was_open" and "is_open \<longrightarrow> was_open"
  shows "steps channel_step ch (if was_open \<and> \<not> is_open then [C_close] else []) (ch\<lparr>ch_open := is_open\<rparr>)"
proof (cases "was_open \<and> \<not> is_open")
  case True
  then show ?thesis using steps_single [of channel_step, OF channel_step.close] assms(1) by simp
next
  case False
  then have "ch\<lparr>ch_open := is_open\<rparr> = ch" using assms by auto
  then show ?thesis using False steps_nil [of channel_step ch] by auto
qed

lemma channel_inputs:
  assumes "sock_open c' \<longrightarrow> sock_open c" and "ch_open ch = sock_open c"
    and "\<And>b. ev = Ev_write b None \<Longrightarrow> sock_open c \<Longrightarrow> ch_confirmed ch < length (ch_out ch)"
  shows "steps channel_step ch (inputs (sock_open c) (sock_open c') ev)
    (ch\<lparr>ch_in := ch_in ch @ (if sock_open c' then received_by ev else []), ch_out := ch_out ch @ posted_by ev,
        ch_confirmed := ch_confirmed ch + (case ev of Ev_write _ None \<Rightarrow> if sock_open c then 1 else 0 | _ \<Rightarrow> 0)\<rparr>)"
proof -
  let ?step = channel_step
  have nil: "steps ?step ch [] ch" by (rule steps_nil)
  have post: "steps ?step ch [C_post b] (ch\<lparr>ch_out := ch_out ch @ [b]\<rparr>)" for b
    by (rule steps_single [where step = ?step, OF channel_step.post])
  have "ch_open ch \<Longrightarrow> steps ?step ch [C_in bs] (ch\<lparr>ch_in := ch_in ch @ bs\<rparr>)" for bs
    by (rule steps_single [where step = ?step, OF channel_step.receive])
  then have recv: "sock_open c' \<Longrightarrow> steps ?step ch [C_in bs] (ch\<lparr>ch_in := ch_in ch @ bs\<rparr>)" for bs
    using assms(1,2) by blast
  have conf: "sock_open c \<Longrightarrow> ev = Ev_write b None \<Longrightarrow>
      steps ?step ch [C_confirm] (ch\<lparr>ch_confirmed := ch_confirmed ch + 1\<rparr>)" for b
    using steps_single [where step = ?step, OF channel_step.confirm] assms(2,3) by blast
  show ?thesis
    using nil post recv conf
    by (cases "(sock_open c, sock_open c', ev)" rule: inputs.cases) (auto split: option.splits)
qed

lemma implements_step:
  assumes "implements h e D c ch" and "held_step h e D c ev c'"
  shows "\<exists>ch'. steps channel_step ch (channel_label c ev c') ch' \<and> implements h e D c' ch'"
proof -
  obtain c0 es where run: "fresh c0" "steps (held_step h e D) c0 es c"
    and ch: "ch_open ch = sock_open c" "ch_confirmed ch \<le> length (ch_out ch)" "posted es = ch_out ch"
      "queue c = drop (ch_confirmed ch) (ch_out ch)" "sock_open c \<Longrightarrow> received es = ch_in ch"
    using assms(1) by (auto simp: implements_def)
  have f: "life_ok c" "write_ok c"
    using held.inv_steps [OF run] by (auto dest: conn_inv_facts)
  have opened: "sock_open c' \<longrightarrow> sock_open c" using open_step [OF f(1) assms(2)] by blast
  have busy: "ch_confirmed ch < length (ch_out ch)" if "ev = Ev_write b err" for b err
  proof -
    have "Op_write b \<in># writes c" using held_stepE [OF assms(2)] enabled_sorted(4) that by metis
    then show ?thesis using f(2) ch(4) by (auto simp: write_ok_def)
  qed
  let ?n = "ch_confirmed ch + (case ev of Ev_write _ None \<Rightarrow> if sock_open c then 1 else 0 | _ \<Rightarrow> 0)"
  let ?bs = "ch_in ch @ (if sock_open c' then received_by ev else [])"
  let ?mid = "ch\<lparr>ch_in := ?bs, ch_out := ch_out ch @ posted_by ev, ch_confirmed := ?n\<rparr>"
  have run': "steps (held_step h e D) c0 (es @ [ev]) c'" using run(2) assms(2) by (rule steps_snoc)
  have "steps channel_step ch (channel_label c ev c') (?mid\<lparr>ch_open := sock_open c'\<rparr>)"
    unfolding channel_label_def
    by (rule steps_append [OF channel_close channel_inputs]) (use ch(1) opened busy in auto)
  moreover have n: "?n \<le> length (posted (es @ [ev]))" "queue c' = drop ?n (posted (es @ [ev]))"
    using busy ch(2,3,4) unfolding queue_step [OF f(1) assms(2)]
    by (auto simp: drop_Suc tl_drop split: event.splits option.splits)
  have "sock_open c' \<Longrightarrow> received (es @ [ev]) = ?bs" using opened ch(5) by simp
  with implementsI [OF run(1) run' n, of ?bs]
  have "implements h e D c' \<lparr>ch_open = sock_open c', ch_in = ?bs, ch_out = posted (es @ [ev]), ch_confirmed = ?n\<rparr>"
    by blast
  moreover have "\<lparr>ch_open = sock_open c', ch_in = ?bs, ch_out = posted (es @ [ev]), ch_confirmed = ?n\<rparr> =
      ?mid\<lparr>ch_open := sock_open c'\<rparr>"
    using ch(3) by simp
  ultimately show ?thesis by auto
qed

interpretation channel: simulation "held_step h e D" channel_step "implements h e D" channel_label for h e D
  by unfold_locales (rule implements_step)

text \<open>Time restricts the runs of a connection, so a timed connection is a channel too.\<close>

definition untimed_label :: "timed \<Rightarrow> timed_event \<Rightarrow> timed \<Rightarrow> event list" where
  "untimed_label s x s' = event_done x"

interpretation untimed: simulation "timed_step h e D" "held_step h e D" "\<lambda>s c. c = connection_of s" untimed_label for h e D
proof
  show "\<exists>c'. steps (held_step h e D) c (untimed_label s x s') c' \<and> c' = connection_of s'"
    if "c = connection_of s" "timed_step h e D s x s'" for s c x s'
    using timed_is_run [OF steps_single [where step = "timed_step h e D", OF that(2)]] that(1)
    by (simp add: untimed_label_def events_done_def)
qed

lemma implements_new: "fresh c \<Longrightarrow> implements h e D c channel_new"
proof -
  assume f: "fresh c"
  moreover have "sock_open c" "queue c = []" using f by (auto simp: fresh_def fresh_connection_def)
  ultimately show ?thesis
    using implementsI [OF f steps_nil, where n = 0 and h = h and e = e and D = D and bs = "[]"]
    by (simp add: posted_def received_def channel_new_def)
qed

lemma implements_out:
  assumes "implements h e D c ch"
  shows "ch_out ch = started c @ tl (queue c)" and "started c = ch_sent ch"
proof -
  obtain c0 es where run: "fresh c0" "steps (held_step h e D) c0 es c"
    and ch: "posted es = ch_out ch" "queue c = drop (ch_confirmed ch) (ch_out ch)"
    using assms by (auto simp: implements_def)
  show out: "ch_out ch = started c @ tl (queue c)"
    using held.inv_steps [OF run] ch(1) by (simp add: conn_inv_def write_inv_def)
  have "tl (queue c) = drop (ch_confirmed ch + 1) (ch_out ch)" by (simp add: ch(2) drop_Suc tl_drop)
  with out have "started c @ drop (ch_confirmed ch + 1) (ch_out ch) =
      take (ch_confirmed ch + 1) (ch_out ch) @ drop (ch_confirmed ch + 1) (ch_out ch)" by simp
  then show "started c = ch_sent ch" by (simp only: append_same_eq ch_sent_def)
qed

text \<open>
  What a connection shows of the channel after the events \<open>es\<close>: the channel has taken in exactly the
  bytes the reads delivered and the packets posted, those whose writing was started are the ones it
  has sent, those queued the ones it has not confirmed, and the frames of the bytes are the
  packets handed to \<open>on_packet\<close>, but for an empty one whose read has not been handled yet.
\<close>

definition shows_channel :: "event list \<Rightarrow> connection \<Rightarrow> channel \<Rightarrow> bool" where
  "shows_channel es c ch \<longleftrightarrow>
     ch_open ch = sock_open c \<and> ch_out ch = posted es \<and> ch_sent ch = started c \<and>
     drop (ch_confirmed ch) (ch_out ch) = queue c \<and>
     (sock_open c \<longrightarrow> ch_in ch = received es \<and>
        map frame_encode (ch_frames ch) = delivered c @ map frame_encode (empty_body c))"

lemma implements_shows:
  assumes "implements h e D c ch" and "conn_inv es c"
  shows "shows_channel es c ch"
proof -
  have ch: "ch_open ch = sock_open c" "queue c = drop (ch_confirmed ch) (ch_out ch)"
    using assms(1) by (simp_all add: implements_def)
  have out: "ch_out ch = posted es"
    using implements_out(1) [OF assms(1)] assms(2) by (simp add: conn_inv_def write_inv_def)
  have "ch_in ch = received es" if op: "sock_open c"
  proof -
    obtain c0 fs where run: "fresh c0" "steps (held_step h e D) c0 fs c" "received fs = ch_in ch"
      using assms(1) op by (auto simp: implements_def)
    then have "received fs = concat (delivered c) @ partial_packet c"
      using held.inv_steps [OF run(1,2)] op by (simp add: conn_inv_def read_inv_def)
    then show ?thesis using run(3) assms(2) op by (simp add: conn_inv_def read_inv_def)
  qed
  then show ?thesis
    using ch out implements_out(2) [OF assms(1)] inv_delivered [OF assms(2)]
    by (simp add: shows_channel_def ch_frames_def)
qed

end
