(* ===== verification/Strings.thy ===== *)
theory Strings
  imports Prelude
begin

section \<open>Numbers as text\<close>

text \<open>
  What \<^verbatim>\<open>std::to_string\<close> and the output operator of a stream print for an integer, and the
  C++17 path operations the code uses, as they act on a POSIX path.
\<close>

fun nat_to_string :: "nat \<Rightarrow> string" where
  "nat_to_string n =
     (if n < 10 then [char_of (48 + n)] else nat_to_string (n div 10) @ [char_of (48 + n mod 10)])"

declare nat_to_string.simps [simp del]

definition int_to_string :: "int \<Rightarrow> string" where
  "int_to_string i = (if i < 0 then CHR ''-'' # nat_to_string (nat (- i)) else nat_to_string (nat i))"

definition is_digit :: "char \<Rightarrow> bool" where
  "is_digit c \<longleftrightarrow> 48 \<le> (of_char c :: nat) \<and> (of_char c :: nat) \<le> 57"

text \<open>The number a string of digits denotes, the inverse of \<open>nat_to_string\<close>.\<close>

definition digits_value :: "string \<Rightarrow> nat" where
  "digits_value s = foldl (\<lambda>a c. 10 * a + (of_char c - 48)) 0 s"

lemma digit_char: "d < 10 \<Longrightarrow> (of_char (char_of (48 + d) :: char) :: nat) = 48 + d"
  by (simp add: of_char_of)

lemma digits_value_snoc [simp]: "digits_value (s @ [c]) = 10 * digits_value s + (of_char c - 48)"
  by (simp add: digits_value_def)

lemma digits_value_nat_to_string [simp]: "digits_value (nat_to_string n) = n"
proof (induction n rule: nat_to_string.induct)
  case (1 n)
  show ?case
  proof (cases "n < 10")
    case True
    then show ?thesis
      by (simp add: nat_to_string.simps [of n] digits_value_def digit_char)
  next
    case False
    then show ?thesis
      using "1.IH" by (simp add: nat_to_string.simps [of n] digit_char)
  qed
qed

lemma nat_to_string_inj [simp]: "nat_to_string m = nat_to_string n \<longleftrightarrow> m = n"
  using digits_value_nat_to_string by metis

lemma nat_to_string_digits: "c \<in> set (nat_to_string n) \<Longrightarrow> is_digit c"
proof (induction n rule: nat_to_string.induct)
  case (1 n)
  then show ?case
    by (cases "n < 10") (auto simp: nat_to_string.simps [of n] is_digit_def digit_char)
qed

lemma nat_to_string_no_char [simp]: "\<not> is_digit c \<Longrightarrow> c \<notin> set (nat_to_string n)"
  using nat_to_string_digits by blast

lemma separators_no_digits [simp]:
  "\<not> is_digit (CHR ''-'')" "\<not> is_digit (CHR ''.'')" "\<not> is_digit (CHR ''/'')" "\<not> is_digit (CHR '' '')"
  by (simp_all add: is_digit_def of_char_def)

lemma split_at_char:
  assumes "c \<notin> set a" and "c \<notin> set b"
  shows "a @ c # x = b @ c # y \<longleftrightarrow> a = b \<and> x = y"
proof
  assume eq: "a @ c # x = b @ c # y"
  have "takeWhile (\<lambda>z. z \<noteq> c) (a @ c # x) = a" "takeWhile (\<lambda>z. z \<noteq> c) (b @ c # y) = b"
    using assms by (auto simp: takeWhile_append2 intro!: takeWhile_append2 [THEN trans])
  with eq show "a = b \<and> x = y" by simp
qed simp

subsection \<open>Paths\<close>

definition path_filename :: "string \<Rightarrow> string" where
  "path_filename p = rev (takeWhile (\<lambda>c. c \<noteq> CHR ''/'') (rev p))"

definition path_directory :: "string \<Rightarrow> string" where
  "path_directory p = rev (dropWhile (\<lambda>c. c \<noteq> CHR ''/'') (rev p))"

text \<open>The path without its last element and the separators before it; the root is its own parent.\<close>

definition parent_path :: "string \<Rightarrow> string" where
  "parent_path p =
     (let d = path_directory p; stripped = rev (dropWhile (\<lambda>c. c = CHR ''/'') (rev d)) in
      if d \<noteq> [] \<and> stripped = [] then ''/'' else stripped)"

text \<open>The extension of a file name starts at its last dot, unless that is its first character.\<close>

definition path_extension :: "string \<Rightarrow> string" where
  "path_extension p =
     (let f = path_filename p; base = rev (dropWhile (\<lambda>c. c \<noteq> CHR ''.'') (rev f)) in
      if f = ''..'' \<or> length base \<le> 1 then [] else drop (length base - 1) f)"

definition path_stem :: "string \<Rightarrow> string" where
  "path_stem p =
     (let f = path_filename p; base = rev (dropWhile (\<lambda>c. c \<noteq> CHR ''.'') (rev f)) in
      if f = ''..'' \<or> length base \<le> 1 then f else take (length base - 1) f)"

lemma path_split: "path_directory p @ path_filename p = p"
  unfolding path_directory_def path_filename_def
  by (metis rev_append rev_rev_ident takeWhile_dropWhile_id)

lemma stem_extension: "path_stem p @ path_extension p = path_filename p"
  by (auto simp: path_stem_def path_extension_def Let_def)

end
