(* ===== verification/Logger.thy ===== *)
theory Logger
  imports Config Strings
begin

section \<open>The logger\<close>

text \<open>
  The class \<open>Logger\<close> of \<open>src/logger/logger.hpp\<close> and \<open>logger.cpp\<close>. The clock is the argument
  \<open>now\<close> of the operations, the broken-down local time; the disk is a map from file names to
  contents, on which the parameters \<open>can_open\<close> and \<open>mkdirs\<close> say whether a file can be opened and
  a directory made.
\<close>

subsection \<open>Levels\<close>

datatype log_level = Debug | Info | Notice | Warning | Error | Critical | Alert | Emergency

fun level_rank :: "log_level \<Rightarrow> nat" where
  "level_rank Debug = 0"
| "level_rank Info = 1"
| "level_rank Notice = 2"
| "level_rank Warning = 3"
| "level_rank Error = 4"
| "level_rank Critical = 5"
| "level_rank Alert = 6"
| "level_rank Emergency = 7"

lemma level_rank_inj: "level_rank a = level_rank b \<longleftrightarrow> a = b"
  by (cases a; cases b) simp_all

text \<open>\<^verbatim>\<open>operator<\<close> on the enumeration compares the values of the enumerators.\<close>

instantiation log_level :: linorder
begin

definition less_eq_log_level :: "log_level \<Rightarrow> log_level \<Rightarrow> bool" where
  "a \<le> b \<longleftrightarrow> level_rank a \<le> level_rank b"

definition less_log_level :: "log_level \<Rightarrow> log_level \<Rightarrow> bool" where
  "a < b \<longleftrightarrow> level_rank a < level_rank b"

instance
  by standard (auto simp: less_eq_log_level_def less_log_level_def level_rank_inj)

end

definition getLevel :: "string \<Rightarrow> log_level res" where
  "getLevel s =
     (if s = ''Debug'' then Inr Debug
      else if s = ''Info'' then Inr Info
      else if s = ''Notice'' then Inr Notice
      else if s = ''Warning'' then Inr Warning
      else if s = ''Error'' then Inr Error
      else if s = ''Critical'' then Inr Critical
      else if s = ''Alert'' then Inr Alert
      else if s = ''Emergency'' then Inr Emergency
      else Inl (Invalid_argument ''Invalid log level''))"

fun levelToString :: "log_level \<Rightarrow> string" where
  "levelToString Debug = ''Debug''"
| "levelToString Info = ''Info''"
| "levelToString Notice = ''Notice''"
| "levelToString Warning = ''Warning''"
| "levelToString Error = ''Error''"
| "levelToString Critical = ''Critical''"
| "levelToString Alert = ''Alert''"
| "levelToString Emergency = ''Emergency''"

subsection \<open>State and construction\<close>

record log_path_info =
  lp_path :: string
  lp_name :: string
  lp_extention :: string

text \<open>\<open>lg_file\<close> is the name of the file the stream has open.\<close>

record logger =
  lg_file :: "string option"
  lg_currentDate :: string
  lg_configLevel :: log_level
  lg_configFile :: string
  lg_configIntervalSeconds :: int
  lg_pathinfo :: log_path_info

definition logger_new :: "('v, 'o) json_ops \<Rightarrow> 'o config \<Rightarrow> logger res" where
  "logger_new J cfg =
     rbind (get_string J cfg ''logging.level'' []) (\<lambda>level_str.
     rbind (getLevel level_str) (\<lambda>level.
     rbind (get_string J cfg ''logging.file'' []) (\<lambda>log_file.
     rbind (get_int J cfg ''logging.flush_interval_seconds'' 0) (\<lambda>seconds.
     Inr \<lparr>lg_file = None, lg_currentDate = [], lg_configLevel = level, lg_configFile = log_file,
          lg_configIntervalSeconds = seconds,
          lg_pathinfo = \<lparr>lp_path = [], lp_name = [], lp_extention = []\<rparr>\<rparr>))))"

definition getFileFolders :: "(string \<Rightarrow> bool) \<Rightarrow> logger \<Rightarrow> bool \<times> logger" where
  "getFileFolders mkdirs l =
     (let path = lg_configFile l; extension = path_extension path in
      if extension = [] then (False, l)
      else if extension \<noteq> ''.log'' \<and> extension \<noteq> ''.txt'' then (False, l)
      else let parent = parent_path path in
      if parent \<noteq> [] \<and> \<not> mkdirs parent then (False, l)
      else (True, l\<lparr>lg_pathinfo :=
        \<lparr>lp_path = (if parent \<noteq> [] then parent @ ''/'' else []),
         lp_name = path_stem path, lp_extention = extension\<rparr>\<rparr>))"

subsection \<open>Dates\<close>

record tm =
  tm_year :: nat
  tm_mon :: nat
  tm_mday :: nat
  tm_hour :: nat
  tm_min :: nat
  tm_sec :: nat

definition getDate :: "tm \<Rightarrow> string" where
  "getDate t = nat_to_string (tm_year t + 1900) @ ''-'' @ nat_to_string (tm_mon t + 1) @ ''-'' @
     nat_to_string (tm_mday t)"

definition two_digits :: "nat \<Rightarrow> string" where
  "two_digits n = (if n < 10 then ''0'' else []) @ nat_to_string n"

definition getDateTime :: "tm \<Rightarrow> string" where
  "getDateTime t = nat_to_string (tm_year t + 1900) @ ''-'' @ nat_to_string (tm_mon t + 1) @ ''-'' @
     nat_to_string (tm_mday t) @ '' '' @ two_digits (tm_hour t) @ '':'' @ two_digits (tm_min t) @
     '':'' @ two_digits (tm_sec t)"

subsection \<open>Logging\<close>

type_synonym log_disk = "string \<Rightarrow> string"

definition log_filename :: "logger \<Rightarrow> string \<Rightarrow> string" where
  "log_filename l date =
     lp_path (lg_pathinfo l) @ lp_name (lg_pathinfo l) @ ''-'' @ date @ lp_extention (lg_pathinfo l)"

definition openFileIfNeeded :: "(string \<Rightarrow> bool) \<Rightarrow> tm \<Rightarrow> logger \<Rightarrow> logger" where
  "openFileIfNeeded can_open now l =
     (let today = getDate now in
      if today \<noteq> lg_currentDate l
      then let l1 = l\<lparr>lg_currentDate := today\<rparr>;
               l2 = l1\<lparr>lg_file := None\<rparr>;
               filename = log_filename l2 (lg_currentDate l2) in
           if can_open filename then l2\<lparr>lg_file := Some filename\<rparr> else l2
      else l)"

definition log_line :: "tm \<Rightarrow> log_level \<Rightarrow> string \<Rightarrow> string \<Rightarrow> string" where
  "log_line now level modl message =
     getDateTime now @ '' ['' @ levelToString level @ ''] '' @ ''['' @ modl @ ''] '' @ message @ [CHR 0x0A]"

text \<open>A write to a stream with no file open is lost.\<close>

definition log ::
  "(string \<Rightarrow> bool) \<Rightarrow> tm \<Rightarrow> log_level \<Rightarrow> string \<Rightarrow> string \<Rightarrow> logger \<times> log_disk \<Rightarrow> logger \<times> log_disk"
where
  "log can_open now level modl message = (\<lambda>(l, disk).
     if level < lg_configLevel l then (l, disk)
     else let l1 = openFileIfNeeded can_open now l in
       (case lg_file l1 of
          None \<Rightarrow> (l1, disk)
        | Some f \<Rightarrow> (l1, disk(f := disk f @ log_line now level modl message))))"

end
