(* ===== verification/Server.thy ===== *)
theory Server
  imports Connection Logger
begin

section \<open>The server\<close>

text \<open>
  The class \<open>Server\<close> of \<open>src/server/server.hpp\<close> and \<open>server.cpp\<close>. The acceptor is Boost.Asio: the
  state keeps whether it is open and how many accepts are pending. Sessions are named by numbers
  in the order of their making; the set \<open>sessions_\<close> is kept as the field \<open>in_sessions\<close> of each. The
  calls of the logger are kept in order.
\<close>

record server =
  srv_open :: bool
  srv_accepting :: nat
  active_connections :: u64
  max_sessions :: u64
  srv_conns :: "nat \<Rightarrow> connection option"
  srv_next :: nat
  srv_inserting :: "nat option"
  srv_rejected :: nat
  srv_log :: "(log_level \<times> string) list"

definition sessions :: "server \<Rightarrow> nat set" where
  "sessions s = {i. \<exists>c. srv_conns s i = Some c \<and> in_sessions c}"

definition srv_logs :: "log_level \<Rightarrow> string \<Rightarrow> server \<Rightarrow> server" where
  "srv_logs level message s = s\<lparr>srv_log := srv_log s @ [(level, message)]\<rparr>"

subsection \<open>Construction\<close>

text \<open>
  The calls of the constructor on the acceptor, which may throw (\<open>net\<close>), as may the parsing of the
  address (\<open>make_address\<close>).
\<close>

datatype 'a acceptor_call =
    Acc_open 'a
  | Acc_reuse_address bool
  | Acc_bind 'a u16
  | Acc_listen int

fun acceptor_calls :: "('a acceptor_call \<Rightarrow> unit res) \<Rightarrow> 'a acceptor_call list \<Rightarrow> unit res" where
  "acceptor_calls net [] = Inr ()"
| "acceptor_calls net (x # xs) = rbind (net x) (\<lambda>_. acceptor_calls net xs)"

definition server_new ::
  "(string \<Rightarrow> 'a res) \<Rightarrow> ('a acceptor_call \<Rightarrow> unit res) \<Rightarrow> ('v, 'o) json_ops \<Rightarrow> 'o config \<Rightarrow>
     (server \<times> 'a acceptor_call list) res"
where
  "server_new make_address net J cfg =
     (let s = \<lparr>srv_open = False, srv_accepting = 0, active_connections = 0, max_sessions = 0,
               srv_conns = Map.empty, srv_next = 0, srv_inserting = None, srv_rejected = 0, srv_log = []\<rparr>;
          s0 = srv_logs Info ''initializing server'' s in
      rbind (get_string J cfg ''server.address'' []) (\<lambda>host.
      rbind (get_int J cfg ''server.port'' 0) (\<lambda>port.
      rbind (get_bool J cfg ''server.reuse_address'' False) (\<lambda>reuse_address.
      rbind (get_int J cfg ''server.backlog'' 0) (\<lambda>backlog.
      rbind (get_int J cfg ''sessions.max_sessions'' 0) (\<lambda>max.
      let s1 = s0\<lparr>max_sessions := of_int max\<rparr> in
      rbind (make_address host) (\<lambda>address.
      let port_number = (of_int port :: u16);
          s2 = srv_logs Info (''resolved endpoint '' @ host @ '':'' @ int_to_string port) s1;
          calls = [Acc_open address, Acc_reuse_address reuse_address, Acc_bind address port_number,
                   Acc_listen backlog] in
      rbind (acceptor_calls net calls) (\<lambda>_.
      let s3 = srv_logs Info (''listening on '' @ host @ '':'' @ int_to_string port) (s2\<lparr>srv_open := True\<rparr>) in
      Inr (s3, calls)))))))))"

subsection \<open>The worker threads\<close>

text \<open>
  The loops of \<open>start_workers\<close> count in \<^verbatim>\<open>size_t\<close>, to which the int is converted. Starting a thread
  may fail; the vector of joinable threads is destroyed then, which terminates the process.
  The result is the threads in the order they were joined.
\<close>

function spawn_workers :: "(nat \<Rightarrow> bool) \<Rightarrow> nat \<Rightarrow> nat \<Rightarrow> nat list \<Rightarrow> nat list res" where
  "spawn_workers spawn n i threads =
     (if i < n
      then if spawn i then spawn_workers spawn n (i + 1) (threads @ [i])
           else if threads = [] then Inl (Library_error ''thread'')
           else Inl (Undefined_behaviour ''terminate: joinable thread destroyed'')
      else Inr threads)"
  by pat_completeness auto
termination
  by (relation "measure (\<lambda>(spawn, n, i, threads). n - i)") auto

declare spawn_workers.simps [simp del]

definition start_workers :: "(nat \<Rightarrow> bool) \<Rightarrow> ('v, 'o) json_ops \<Rightarrow> 'o config \<Rightarrow> nat list res" where
  "start_workers spawn J cfg =
     rbind (get_int J cfg ''thread_pool.thread_count'' 0) (\<lambda>thread_count.
     let n = unat (of_int thread_count :: u64) in
     rbind (spawn_workers spawn n 0 []) (\<lambda>threads. Inr (map (\<lambda>i. threads ! i) [0..<n])))"

subsection \<open>Counting connections\<close>

definition add_connection :: "server \<Rightarrow> bool \<times> server" where
  "add_connection s =
     (if active_connections s \<ge> max_sessions s then (False, s)
      else (True, s\<lparr>active_connections := active_connections s + 1\<rparr>))"

definition remove_connection :: "server \<Rightarrow> server" where
  "remove_connection s =
     (if active_connections s > 0 then s\<lparr>active_connections := active_connections s - 1\<rparr> else s)"

subsection \<open>Accepting\<close>

definition do_accept :: "server \<Rightarrow> server" where
  "do_accept s = s\<lparr>srv_accepting := srv_accepting s + 1\<rparr>"

definition start_accept :: "server \<Rightarrow> server" where
  "start_accept s = (if srv_open s then do_accept s else s)"

text \<open>
  The completion handler of \<^verbatim>\<open>async_accept\<close>, in two parts: other threads may run handlers of the
  new session after \<open>start\<close> and before it is inserted into \<open>sessions_\<close>. \<open>err\<close> is the message of the
  error code, if any, \<open>peer\<close> what \<^verbatim>\<open>remote_endpoint\<close> returns or throws, \<open>has_owner\<close> whether the
  objects have owners when their constructors run: in the program they have not. \<open>cfgs\<close> are the
  configurations the three constructors find.
\<close>

definition accept_begin ::
  "bool \<Rightarrow> ('v, 'o) json_ops \<Rightarrow> 'o config_reads \<Rightarrow> string option \<Rightarrow> (string \<times> u16) res \<Rightarrow> server \<Rightarrow> server res"
where
  "accept_begin has_owner J cfgs err peer s =
     (if \<not> srv_open s then Inr s
      else case err of
        None \<Rightarrow>
          (case add_connection s of
             (True, s1) \<Rightarrow>
               rbind peer (\<lambda>(address, port).
               let s2 = srv_logs Info
                 (''client connected: '' @ address @ '':'' @ nat_to_string (unat port)) s1 in
               rbind (session_body has_owner J (cfg_session cfgs)) (\<lambda>session.
               rbind (start_body has_owner J cfgs session) (\<lambda>c.
               Inr (s2\<lparr>srv_conns := (srv_conns s2)(srv_next s2 \<mapsto> c), srv_next := srv_next s2 + 1,
                       srv_inserting := Some (srv_next s2)\<rparr>))))
           | (False, s1) \<Rightarrow>
               let s2 = srv_logs Warning (''session rejected, maximum sessions reached: '' @
                 nat_to_string (unat (max_sessions s1))) s1 in
               Inr (do_accept (s2\<lparr>srv_rejected := srv_rejected s2 + 1\<rparr>)))
      | Some message \<Rightarrow> Inr (do_accept (srv_logs Error message s)))"

definition insert_session :: "nat \<Rightarrow> server \<Rightarrow> server" where
  "insert_session i s =
     s\<lparr>srv_conns := (srv_conns s)(i := map_option (\<lambda>c. c\<lparr>in_sessions := True\<rparr>) (srv_conns s i))\<rparr>"

definition accept_end :: "server \<Rightarrow> server" where
  "accept_end s =
     (case srv_inserting s of
        None \<Rightarrow> s
      | Some i \<Rightarrow> do_accept ((insert_session i s)\<lparr>srv_inserting := None\<rparr>))"

definition accept_handler ::
  "bool \<Rightarrow> ('v, 'o) json_ops \<Rightarrow> 'o config_reads \<Rightarrow> string option \<Rightarrow> (string \<times> u16) res \<Rightarrow> server \<Rightarrow> server res"
where
  "accept_handler has_owner J cfgs err peer s =
     rbind (accept_begin has_owner J cfgs err peer s) (\<lambda>s'. Inr (accept_end s'))"

definition remove_session :: "nat \<Rightarrow> server \<Rightarrow> server" where
  "remove_session i s =
     s\<lparr>srv_conns := (srv_conns s)(i := map_option (\<lambda>c. c\<lparr>in_sessions := False\<rparr>) (srv_conns s i))\<rparr>"

definition server_stop :: "server \<Rightarrow> server" where
  "server_stop s = (srv_logs Info ''Stop acceptor'' s)\<lparr>srv_open := False\<rparr>"

subsection \<open>Runs of the server\<close>

text \<open>
  The handlers of all sessions and the accept handler run on a pool of threads; a step is one
  handler, or one part of the accept handler. While a session is being inserted, the accept
  handler's own \<^verbatim>\<open>shared_ptr\<close> keeps it alive.
\<close>

datatype server_event =
    SE_accept "string option" "(string \<times> u16) res"
  | SE_insert nat
  | SE_conn nat event
  | SE_stop

fun server_enabled :: "server \<Rightarrow> server_event \<Rightarrow> bool" where
  "server_enabled s (SE_accept _ _) \<longleftrightarrow> 0 < srv_accepting s"
| "server_enabled s (SE_insert i) \<longleftrightarrow> srv_inserting s = Some i"
| "server_enabled s (SE_conn i ev) \<longleftrightarrow> (case srv_conns s i of Some c \<Rightarrow> enabled c ev | None \<Rightarrow> False)"
| "server_enabled s SE_stop \<longleftrightarrow> True"

definition session_fire ::
  "bool \<Rightarrow> endian \<Rightarrow> archive_reader \<Rightarrow> connection \<Rightarrow> event \<Rightarrow> connection res"
where
  "session_fire inserting e D c ev =
     (if inserting then dispatch e D (complete ev c) ev else fire e D c ev)"

lemma session_fire_simps [simp]:
  "session_fire True e D c ev = dispatch e D (complete ev c) ev"
  "session_fire False e D c ev = fire e D c ev"
  by (simp_all add: session_fire_def)

fun server_fire ::
  "bool \<Rightarrow> endian \<Rightarrow> archive_reader \<Rightarrow> ('v, 'o) json_ops \<Rightarrow> 'o config_reads \<Rightarrow> server \<Rightarrow> server_event \<Rightarrow> server res"
where
  "server_fire ow e D J cfgs s (SE_accept err peer) =
     accept_begin ow J cfgs err peer (s\<lparr>srv_accepting := srv_accepting s - 1\<rparr>)"
| "server_fire ow e D J cfgs s (SE_insert i) = Inr (accept_end s)"
| "server_fire ow e D J cfgs s (SE_conn i ev) =
     (case srv_conns s i of
        None \<Rightarrow> Inr s
      | Some c \<Rightarrow>
          rbind (session_fire (srv_inserting s = Some i) e D c ev)
            (\<lambda>c'. Inr (s\<lparr>srv_conns := (srv_conns s)(i \<mapsto> c')\<rparr>)))"
| "server_fire ow e D J cfgs s SE_stop = Inr (server_stop s)"

inductive server_step ::
  "bool \<Rightarrow> endian \<Rightarrow> archive_reader \<Rightarrow> ('v, 'o) json_ops \<Rightarrow> 'o config_reads \<Rightarrow>
     server \<Rightarrow> server_event \<Rightarrow> server \<Rightarrow> bool"
  for ow :: bool and e :: endian and D :: archive_reader and J :: "('v, 'o) json_ops" and cfgs :: "'o config_reads"
where
  server_step: "server_enabled s ev \<Longrightarrow> server_fire ow e D J cfgs s ev = Inr s' \<Longrightarrow>
    server_step ow e D J cfgs s ev s'"

inductive_simps server_step_iff: "server_step ow e D J cfgs s ev s'"

definition started_server :: "server \<Rightarrow> bool" where
  "started_server s \<longleftrightarrow> srv_open s \<and> srv_accepting s = 1 \<and> active_connections s = 0 \<and>
     srv_conns s = Map.empty \<and> srv_next s = 0 \<and> srv_inserting s = None \<and> srv_rejected s = 0"

end
