(* ===== verification/Server_Inv.thy ===== *)
theory Server_Inv
  imports Server Connection_Safety
begin

section \<open>Invariants of the server\<close>

text \<open>
  What every run of a started server keeps: the count of connections is the number of sessions ever
  accepted, at most one accept or insertion is in progress, and each session is a run of its own
  from an established connection, whether it is used before it was inserted or not.
\<close>

lemma srv_logs_fields [simp]:
  "srv_open (srv_logs l m s) = srv_open s" "srv_accepting (srv_logs l m s) = srv_accepting s"
  "active_connections (srv_logs l m s) = active_connections s" "max_sessions (srv_logs l m s) = max_sessions s"
  "srv_conns (srv_logs l m s) = srv_conns s" "srv_next (srv_logs l m s) = srv_next s"
  "srv_inserting (srv_logs l m s) = srv_inserting s" "srv_rejected (srv_logs l m s) = srv_rejected s"
  by (simp_all add: srv_logs_def)

lemma do_accept_fields [simp]:
  "srv_open (do_accept s) = srv_open s" "srv_accepting (do_accept s) = srv_accepting s + 1"
  "active_connections (do_accept s) = active_connections s" "max_sessions (do_accept s) = max_sessions s"
  "srv_conns (do_accept s) = srv_conns s" "srv_next (do_accept s) = srv_next s"
  "srv_inserting (do_accept s) = srv_inserting s" "srv_rejected (do_accept s) = srv_rejected s"
  by (simp_all add: do_accept_def)

subsection \<open>What a step does\<close>

text \<open>The four outcomes of an accept.\<close>

definition admit :: "connection \<Rightarrow> string \<Rightarrow> server \<Rightarrow> server" where
  "admit c msg s = (srv_logs Info msg (s\<lparr>active_connections := active_connections s + 1\<rparr>))
     \<lparr>srv_conns := (srv_conns s)(srv_next s \<mapsto> c), srv_next := srv_next s + 1,
      srv_inserting := Some (srv_next s)\<rparr>"

lemma accept_begin_cases:
  assumes "accept_begin ow J cfgs err peer s = Inr s'"
  obtains (closed) "\<not> srv_open s" "s' = s"
  | (failed) m where "srv_open s" "err = Some m" "s' = do_accept (srv_logs Error m s)"
  | (rejected) m where "srv_open s" "err = None" "active_connections s \<ge> max_sessions s"
      "s' = do_accept ((srv_logs Warning m s)\<lparr>srv_rejected := srv_rejected s + 1\<rparr>)"
  | (accepted) c m where "srv_open s" "err = None" "active_connections s < max_sessions s"
      "made_session ow J cfgs = Inr c" "s' = admit c m s"
proof -
  consider "\<not> srv_open s" | m where "srv_open s" "err = Some m" | "srv_open s" "err = None"
    by (cases err) auto
  then show thesis
  proof cases
    case 3
    show thesis
    proof (cases "active_connections s \<ge> max_sessions s")
      case True
      with 3 assms show thesis by (intro rejected) (auto simp: accept_begin_def add_connection_def Let_def)
    next
      case False
      with 3 assms obtain a p sess c where "peer = Inr (a, p)" "session_body ow J (cfg_session cfgs) = Inr sess"
        "start_body ow J cfgs sess = Inr c"
        "s' = admit c (''client connected: '' @ a @ '':'' @ nat_to_string (unat p)) s"
        by (auto simp: accept_begin_def add_connection_def admit_def rbind_eq_Inr Let_def)
      with 3 False show thesis by (intro accepted) auto
    qed
  qed (use assms in \<open>auto simp: accept_begin_def intro: closed failed\<close>)
qed

lemma admit_fields [simp]:
  "srv_open (admit c m s) = srv_open s" "srv_accepting (admit c m s) = srv_accepting s"
  "active_connections (admit c m s) = active_connections s + 1" "max_sessions (admit c m s) = max_sessions s"
  "srv_conns (admit c m s) = (srv_conns s)(srv_next s \<mapsto> c)" "srv_next (admit c m s) = srv_next s + 1"
  "srv_inserting (admit c m s) = Some (srv_next s)" "srv_rejected (admit c m s) = srv_rejected s"
  by (simp_all add: admit_def)

lemma started_connection:
  "made_session ow J cfgs = Inr c \<Longrightarrow>
     ow \<and> \<not> in_sessions c \<and> fresh (c\<lparr>in_sessions := True\<rparr>)"
proof -
  assume c: "made_session ow J cfgs = Inr c"
  have "ow" using c by (cases ow) (auto simp: session_body_def check_idle_timer_def shared_from_this_def
      Let_def rbind_eq_Inr)
  moreover from this have "establish J cfgs = Inr (c\<lparr>in_sessions := True\<rparr>)"
    using c by (auto simp: establish_def rbind_eq_Inr)
  moreover have "\<not> in_sessions c" using c by (auto simp: establish_defs rbind_eq_Inr)
  ultimately show ?thesis by (auto simp: establish_fresh fresh_def)
qed

lemma server_stepE:
  assumes "server_step ow e D J cfgs s ev s'"
  obtains (closed) err peer where "ev = SE_accept err peer" "\<not> srv_open s" "0 < srv_accepting s"
      "s' = s\<lparr>srv_accepting := srv_accepting s - 1\<rparr>"
  | (failed) m peer where "ev = SE_accept (Some m) peer" "srv_open s" "0 < srv_accepting s"
      "s' = do_accept (srv_logs Error m (s\<lparr>srv_accepting := srv_accepting s - 1\<rparr>))"
  | (rejected) m peer where "ev = SE_accept None peer" "srv_open s" "0 < srv_accepting s"
      "active_connections s \<ge> max_sessions s"
      "s' = do_accept ((srv_logs Warning m (s\<lparr>srv_accepting := srv_accepting s - 1\<rparr>))
        \<lparr>srv_rejected := srv_rejected s + 1\<rparr>)"
  | (accepted) c m peer where "ev = SE_accept None peer" "srv_open s" "0 < srv_accepting s"
      "active_connections s < max_sessions s" "ow" "\<not> in_sessions c" "fresh (c\<lparr>in_sessions := True\<rparr>)"
      "s' = admit c m (s\<lparr>srv_accepting := srv_accepting s - 1\<rparr>)"
  | (inserted) i where "ev = SE_insert i" "srv_inserting s = Some i"
      "s' = do_accept ((insert_session i s)\<lparr>srv_inserting := None\<rparr>)"
  | (conn) i cev c c' where "ev = SE_conn i cev" "srv_conns s i = Some c" "enabled c cev"
      "session_fire (srv_inserting s = Some i) e D c cev = Inr c'"
      "s' = s\<lparr>srv_conns := (srv_conns s)(i \<mapsto> c')\<rparr>"
  | (stop) "ev = SE_stop" "s' = server_stop s"
proof -
  have en: "server_enabled s ev" and fire: "server_fire ow e D J cfgs s ev = Inr s'"
    using assms by (simp_all add: server_step_iff)
  show thesis
  proof (cases ev)
    case (SE_accept err peer)
    let ?s = "s\<lparr>srv_accepting := srv_accepting s - 1\<rparr>"
    from SE_accept fire have "accept_begin ow J cfgs err peer ?s = Inr s'" by simp
    then show thesis
    proof (cases rule: accept_begin_cases)
      case closed
      with SE_accept en show thesis by (intro that(1) [of err peer]) simp_all
    next
      case (failed m)
      with SE_accept en show thesis by (intro that(2) [of m peer]) simp_all
    next
      case (rejected m)
      with SE_accept en show thesis by (intro that(3) [of peer m]) simp_all
    next
      case (accepted c m)
      with started_connection [OF accepted(4)] SE_accept en show thesis
        by (intro that(4) [of peer c m]) simp_all
    qed
  next
    case (SE_insert i)
    with en fire show thesis by (intro that(5) [of i]) (simp_all add: accept_end_def)
  next
    case (SE_conn i cev)
    with en fire show thesis
      by (cases "srv_conns s i") (auto simp: rbind_eq_Inr intro!: that(6) [of i cev])
  next
    case SE_stop
    with fire show thesis by (intro that(7)) simp_all
  qed
qed

subsection \<open>Counting\<close>

fun is_attempt :: "server_event \<Rightarrow> bool" where
  "is_attempt (SE_accept None _) \<longleftrightarrow> True"
| "is_attempt _ \<longleftrightarrow> False"

text \<open>The connections clients made, among the events.\<close>

definition attempts :: "server_event list \<Rightarrow> nat" where
  "attempts es = length (filter is_attempt es)"

lemma attempts_snoc [simp]: "attempts (es @ [ev]) = attempts es + (if is_attempt ev then 1 else 0)"
  by (simp add: attempts_def)

definition count_inv :: "u64 \<Rightarrow> server_event list \<Rightarrow> server \<Rightarrow> bool" where
  "count_inv m es s \<longleftrightarrow>
     max_sessions s = m \<and> unat (active_connections s) = srv_next s \<and> srv_next s \<le> unat m \<and>
     dom (srv_conns s) = {..<srv_next s} \<and>
     (\<forall>i. srv_inserting s = Some i \<longrightarrow> i < srv_next s) \<and>
     srv_accepting s + (if srv_inserting s = None then 0 else 1) \<le> 1 \<and>
     (srv_open s \<longrightarrow> srv_accepting s + (if srv_inserting s = None then 0 else 1) = 1 \<and>
        srv_next s = min (attempts es) (unat m) \<and> srv_rejected s = attempts es - unat m)"

lemma insert_session_fields [simp]:
  "srv_open (insert_session i s) = srv_open s" "srv_accepting (insert_session i s) = srv_accepting s"
  "active_connections (insert_session i s) = active_connections s"
  "max_sessions (insert_session i s) = max_sessions s" "srv_next (insert_session i s) = srv_next s"
  "srv_inserting (insert_session i s) = srv_inserting s" "srv_rejected (insert_session i s) = srv_rejected s"
  "dom (srv_conns (insert_session i s)) = dom (srv_conns s)"
  by (auto simp: insert_session_def dom_def)

lemma unat_plus_one:
  fixes a b :: u64
  assumes "a < b"
  shows "unat (a + 1) = unat a + 1"
proof -
  have "unat a + 1 < 2 ^ 64" using assms unsigned_less [of b, where ?'a = nat] by (simp add: word_less_nat_alt)
  then show ?thesis by (simp add: unat_word_ariths)
qed

lemma count_inv_step:
  assumes "count_inv m es s" and "server_step ow e D J cfgs s ev s'"
  shows "count_inv m (es @ [ev]) s'"
  using assms(2)
proof (cases rule: server_stepE)
  case (accepted c msg peer)
  have less: "srv_next s < unat m"
    using accepted(4) assms(1) by (simp add: count_inv_def word_less_nat_alt)
  have "unat (active_connections s + 1) = srv_next s + 1"
    using unat_plus_one [OF accepted(4)] assms(1) by (simp add: count_inv_def)
  then show ?thesis using assms(1) accepted less
    by (auto simp: count_inv_def lessThan_Suc split: if_splits)
next
  case (rejected msg peer)
  then have "unat m \<le> srv_next s" using assms(1) by (simp add: count_inv_def word_le_nat_alt)
  then show ?thesis using assms(1) rejected by (auto simp: count_inv_def split: if_splits)
next
  case (conn i cev c c')
  have "dom ((srv_conns s)(i \<mapsto> c')) = dom (srv_conns s)" using conn(2) by auto
  then show ?thesis using assms(1) conn by (simp add: count_inv_def)
qed (use assms(1) in \<open>auto simp: count_inv_def server_stop_def split: if_splits\<close>)

interpretation counting: safe_machine
  "server_step ow e D J cfgs" "\<lambda>s. started_server s \<and> max_sessions s = m" "count_inv m" for ow e D J cfgs m
proof
  show "started_server s \<and> max_sessions s = m \<Longrightarrow> count_inv m [] s" for s
    by (simp add: started_server_def count_inv_def attempts_def)
  show "count_inv m es s \<Longrightarrow> server_step ow e D J cfgs s ev s' \<Longrightarrow> count_inv m (es @ [ev]) s'" for es s ev s'
    by (rule count_inv_step)
qed

subsection \<open>The owners of a session\<close>

definition rooted :: "connection \<Rightarrow> bool" where
  "rooted c \<longleftrightarrow> owned c \<and> on_close_set c \<and> (\<forall>r. Op_login r \<notin># pending c)"

lemma rooted_updates [simp]:
  "rooted (start_op x c) \<longleftrightarrow> rooted c \<and> (\<forall>r. x \<noteq> Op_login r)"
  "rooted (upd_reader f c) \<longleftrightarrow> rooted c" "rooted (upd_writer g c) \<longleftrightarrow> rooted c"
  "rooted (emit y c) \<longleftrightarrow> rooted c" "rooted (begin_length c) \<longleftrightarrow> rooted c"
  "rooted (begin_body n c) \<longleftrightarrow> rooted c" "rooted (begin_write b c) \<longleftrightarrow> rooted c"
  "rooted (set_idle_expiry z c) \<longleftrightarrow> rooted c" "rooted (set_read_expiry z c) \<longleftrightarrow> rooted c"
  "rooted (set_write_expiry z c) \<longleftrightarrow> rooted c" "rooted (stop_conn c) \<longleftrightarrow> rooted c"
  "rooted (release c) \<longleftrightarrow> rooted c" "rooted (c\<lparr>in_sessions := v\<rparr>) \<longleftrightarrow> rooted c"
  by (auto simp: rooted_def begin_length_def begin_body_def begin_write_def)

lemma rooted_complete: "rooted c \<Longrightarrow> rooted (complete ev c)"
  by (auto simp: rooted_def complete_def split: option.splits dest: in_diffD)

lemma sessions_field_updates [simp]:
  "in_sessions (begin_length c) = in_sessions c" "in_sessions (begin_body n c) = in_sessions c"
  "in_sessions (begin_write b c) = in_sessions c" "stopped (begin_length c) = stopped c"
  "stopped (begin_body n c) = stopped c" "stopped (begin_write b c) = stopped c"
  "stopped c \<Longrightarrow> stop_conn c = c"
  by (simp_all add: begin_length_def begin_body_def begin_write_def stop_conn_def)

lemma session_fire_Inr:
  "session_fire b e D c ev = Inr c' \<longleftrightarrow>
     (\<exists>c2. dispatch e D (complete ev c) ev = Inr c2 \<and> c' = (if b then c2 else release c2))"
  by (auto simp: session_fire_def fire_def rbind_eq_Inr)

lemma session_fire_Inl: "session_fire b e D c ev = Inl x \<longleftrightarrow> dispatch e D (complete ev c) ev = Inl x"
  by (simp add: session_fire_def fire_def rbind_eq_Inl)

lemma dispatch_rooted:
  assumes "rooted c" and "dispatch e D c ev = Inr c'"
  shows "rooted c' \<and> (stopped c \<longrightarrow> stopped c' \<and> in_sessions c' = in_sessions c)"
proof -
  have o: "owned c" "on_close_set c" using assms(1) by (simp_all add: rooted_def)
  show ?thesis
    using assms o
    by (cases "alive c"; cases "(e, D, c, ev)" rule: dispatch.cases)
      (auto simp: handler_outcome rbind_eq_Inr Let_def split: if_splits option.splits list.splits)
qed

lemma dispatch_keeps_set:
  assumes "rooted c" and "dispatch e D c ev = Inr c'" and "in_sessions c \<or> stopped c"
  shows "in_sessions c' \<or> stopped c'"
proof -
  have o: "owned c" "on_close_set c" using assms(1) by (simp_all add: rooted_def)
  show ?thesis
    using assms o
    by (cases "alive c"; cases "(e, D, c, ev)" rule: dispatch.cases)
      (auto simp: handler_outcome rbind_eq_Inr Let_def split: if_splits option.splits list.splits)
qed

definition rooted_inv :: "server_event list \<Rightarrow> server \<Rightarrow> bool" where
  "rooted_inv es s \<longleftrightarrow> (\<forall>i c. srv_conns s i = Some c \<longrightarrow> rooted c \<and> i < srv_next s)"

lemma session_fire_rooted:
  assumes "rooted c"
    and "session_fire b e D c ev = Inr c'"
  shows "rooted c' \<and> (stopped c \<longrightarrow> stopped c' \<and> in_sessions c' = in_sessions c)"
proof -
  obtain c2 where d: "dispatch e D (complete ev c) ev = Inr c2" and c': "c' = (if b then c2 else release c2)"
    using assms(2) by (auto simp: session_fire_Inr)
  show ?thesis using dispatch_rooted [OF rooted_complete [OF assms(1)] d] c' by (cases b) simp_all
qed

lemma rooted_fresh: "fresh (c\<lparr>in_sessions := True\<rparr>) \<Longrightarrow> rooted c"
  using life_fresh [of "c\<lparr>in_sessions := True\<rparr>"] by (simp add: life_ok_def rooted_def)

lemma rooted_inv_step:
  assumes "rooted_inv es s" and "server_step ow e D J cfgs s ev s'"
  shows "rooted_inv (es @ [ev]) s'"
  using assms(2)
proof (cases rule: server_stepE)
  case (accepted c m peer)
  then show ?thesis using assms(1) rooted_fresh [of c] by (fastforce simp: rooted_inv_def split: if_splits)
next
  case (inserted i)
  then show ?thesis using assms(1) by (auto simp: rooted_inv_def insert_session_def split: if_splits)
next
  case (conn i cev c c')
  then show ?thesis using assms(1) session_fire_rooted [OF _ conn(4)] by (auto simp: rooted_inv_def)
qed (use assms(1) in \<open>auto simp: rooted_inv_def server_stop_def\<close>)

interpretation rooting: safe_machine "server_step ow e D J cfgs" started_server rooted_inv for ow e D J cfgs
proof
  show "started_server s \<Longrightarrow> rooted_inv [] s" for s by (simp add: started_server_def rooted_inv_def)
  show "rooted_inv es s \<Longrightarrow> server_step ow e D J cfgs s ev s' \<Longrightarrow> rooted_inv (es @ [ev]) s'" for es s ev s'
    by (rule rooted_inv_step)
qed

subsection \<open>Sessions as runs of their own\<close>

text \<open>
  A session as a connection: the set of the server holds it as long as it has not stopped. In the
  server this may fail in two ways, before the accept handler has inserted the session, and after
  it has inserted one that had stopped; both times the session is held from outside. A handler does
  not look at the set, so what it does is the same.
\<close>

definition view :: "connection \<Rightarrow> connection" where
  "view c = c\<lparr>in_sessions := \<not> stopped c\<rparr>"

lemma view_fields [simp]:
  "owned (view c) = owned c" "alive (view c) = alive c" "sock_open (view c) = sock_open c"
  "stopped (view c) = stopped c" "on_close_set (view c) = on_close_set c" "in_sessions (view c) \<longleftrightarrow> \<not> stopped c"
  "idle_expiry (view c) = idle_expiry c" "seconds_idle (view c) = seconds_idle c" "pending (view c) = pending c"
  "effects (view c) = effects c" "conn_reader (view c) = conn_reader c" "conn_writer (view c) = conn_writer c"
  by (simp_all add: view_def)

lemma view_insert [simp]: "view (c\<lparr>in_sessions := b\<rparr>) = view c"
  by (simp add: view_def)

lemma view_updates:
  "view (start_op x c) = start_op x (view c)" "view (emit y c) = emit y (view c)"
  "view (upd_reader f c) = upd_reader f (view c)" "view (upd_writer g c) = upd_writer g (view c)"
  "view (set_idle_expiry z c) = set_idle_expiry z (view c)" "view (set_read_expiry z c) = set_read_expiry z (view c)"
  "view (set_write_expiry z c) = set_write_expiry z (view c)" "view (begin_length c) = begin_length (view c)"
  "view (begin_body n c) = begin_body n (view c)" "view (begin_write b c) = begin_write b (view c)"
  "view (stop_conn c) = stop_conn (view c)" "view (complete ev c) = complete ev (view c)"
  by (simp_all add: view_def start_op_def emit_def upd_reader_def upd_writer_def set_idle_expiry_def
      set_read_expiry_def set_write_expiry_def begin_length_def begin_body_def begin_write_def stop_conn_def
      complete_def split: option.splits)

lemma dispatch_view:
  assumes "rooted c"
  shows "dispatch e D (view c) ev = map_sum id view (dispatch e D c ev)"
proof -
  have o: "owned c" "on_close_set c" using assms by (simp_all add: rooted_def)
  have login: "dispatch e D c (Ev_login r) = Inr c" for c r by simp
  show ?thesis
    using o
    by (cases "alive c"; cases "(e, D, c, ev)" rule: dispatch.cases)
      (auto simp: handler_outcome Let_def view_updates rbind_def split: option.splits list.splits sum.splits)
qed


fun events_of_one :: "nat \<Rightarrow> server_event \<Rightarrow> event list" where
  "events_of_one i (SE_conn j ev) = (if j = i then [ev] else [])"
| "events_of_one i _ = []"

definition session_events :: "nat \<Rightarrow> server_event list \<Rightarrow> event list" where
  "session_events i es = concat (map (events_of_one i) es)"

lemma session_events_snoc [simp]: "session_events i (es @ [ev]) = session_events i es @ events_of_one i ev"
  by (simp add: session_events_def)

text \<open>The connections a run of these events leads to from an established one.\<close>

definition ran :: "endian \<Rightarrow> archive_reader \<Rightarrow> event list \<Rightarrow> connection \<Rightarrow> bool" where
  "ran e D es c \<longleftrightarrow> (\<exists>c0. fresh c0 \<and> steps (held_step True e D) c0 es c)"

lemma ran_fresh: "fresh c \<Longrightarrow> ran e D [] c"
  unfolding ran_def by (intro exI [of _ c] conjI steps_nil)

lemma ran_snoc: "ran e D es c \<Longrightarrow> held_step True e D c ev c' \<Longrightarrow> ran e D (es @ [ev]) c'"
  using steps_snoc [of "held_step True e D"] by (auto simp: ran_def)

lemma ran_inv: "ran e D es c \<Longrightarrow> conn_inv es c"
  by (auto simp: ran_def intro: held.inv_steps)

text \<open>A step of a session of the server is a step of its view.\<close>

lemma view_release:
  assumes "in_sessions c \<or> stopped c"
  obtains k where "view (release c) = release_by k (view c)"
proof (cases "held c")
  case True
  then show thesis using that [of True] by (simp add: release_def release_by_def)
next
  case False
  then have "stopped c" "\<not> held (view c)" using assms by (auto simp: held_def)
  with False show thesis using that [of False] by (simp add: release_def release_by_def view_def)
qed

lemma session_fire_step:
  assumes "rooted c" and "enabled c ev" and "session_fire b e D c ev = Inr c'"
    and "\<not> b \<Longrightarrow> in_sessions c \<or> stopped c"
  shows "held_step True e D (view c) ev (view c')" and "rooted c'"
    and "in_sessions c \<or> stopped c \<Longrightarrow> in_sessions c' \<or> stopped c'"
proof -
  obtain c2 where d: "dispatch e D (complete ev c) ev = Inr c2" and c': "c' = (if b then c2 else release c2)"
    using assms(3) by (auto simp: session_fire_Inr)
  note r = dispatch_rooted [OF rooted_complete [OF assms(1)] d]
  then show "rooted c'" using c' by simp
  have keep: "in_sessions c2 \<or> stopped c2" if "in_sessions c \<or> stopped c"
    using dispatch_keeps_set [OF rooted_complete [OF assms(1)] d] that by simp
  then show "in_sessions c' \<or> stopped c'" if "in_sessions c \<or> stopped c" using that c' by (cases b) simp_all
  have en: "enabled (view c) ev" using assms(2) by (simp add: enabled_def split: option.splits)
  have dv: "dispatch e D (complete ev (view c)) ev = Inr (view c2)"
    using dispatch_view [OF rooted_complete [OF assms(1)], of e D ev ev] d by (simp add: view_updates)
  obtain k where "view c' = release_by k (view c2)"
  proof (cases b)
    case True
    then show thesis using that [of True] c' by (simp add: release_by_def)
  next
    case False
    then show thesis using view_release [of c2] keep assms(4) c' that by auto
  qed
  then show "held_step True e D (view c) ev (view c')"
    using held_step.held_step [OF en dv, of k True] by simp
qed

definition sessions_inv :: "endian \<Rightarrow> archive_reader \<Rightarrow> server_event list \<Rightarrow> server \<Rightarrow> bool" where
  "sessions_inv e D es s \<longleftrightarrow>
     (\<forall>i. srv_next s \<le> i \<longrightarrow> session_events i es = [] \<and> srv_conns s i = None) \<and>
     (\<forall>i. srv_inserting s = Some i \<longrightarrow> i < srv_next s) \<and>
     srv_accepting s + (if srv_inserting s = None then 0 else 1) \<le> 1 \<and>
     (\<forall>i c. srv_conns s i = Some c \<longrightarrow>
        rooted c \<and> ran e D (session_events i es) (view c) \<and>
        (srv_inserting s \<noteq> Some i \<longrightarrow> in_sessions c \<or> stopped c))"

lemma sessions_inv_conn:
  assumes "sessions_inv e D es s" and "srv_conns s i = Some c"
  shows "rooted c" "ran e D (session_events i es) (view c)" "i < srv_next s"
    "srv_inserting s \<noteq> Some i \<Longrightarrow> in_sessions c \<or> stopped c"
  using assms by (auto simp: sessions_inv_def not_le [symmetric])

lemma fresh_view: "fresh (c\<lparr>in_sessions := True\<rparr>) \<Longrightarrow> fresh (view c)"
proof -
  assume f: "fresh (c\<lparr>in_sessions := True\<rparr>)"
  then have "\<not> stopped (c\<lparr>in_sessions := True\<rparr>)" by (auto simp only: fresh_def) (simp add: fresh_connection_def)
  then show ?thesis using f by (simp add: view_def)
qed

lemma sessions_inv_step:
  assumes inv: "sessions_inv e D es s" and st: "server_step ow e D J cfgs s ev s'"
  shows "sessions_inv e D (es @ [ev]) s'"
  using st
proof (cases rule: server_stepE)
  case (accepted c m peer)
  have none: "srv_inserting s = None" using accepted(3) inv by (auto simp: sessions_inv_def split: if_splits)
  have "rooted c" "ran e D [] (view c)"
    using rooted_fresh [OF accepted(7)] ran_fresh [OF fresh_view [OF accepted(7)]] by simp_all
  then show ?thesis using accepted inv none by (auto simp: sessions_inv_def)
next
  case (inserted i)
  have acc: "srv_accepting s = 0" using inserted(2) inv by (simp add: sessions_inv_def)
  have c: "rooted c \<and> ran e D (session_events j es) (view c) \<and> (in_sessions c \<or> stopped c)"
    if sc: "srv_conns s' j = Some c" for j c
  proof (cases "j = i")
    case True
    then obtain d where "srv_conns s i = Some d" "c = d\<lparr>in_sessions := True\<rparr>"
      using sc by (auto simp: inserted(3) insert_session_def)
    then show ?thesis using sessions_inv_conn [OF inv, of i d] True by simp
  next
    case False
    then have "srv_conns s j = Some c" using sc by (simp add: inserted(3) insert_session_def)
    then show ?thesis using sessions_inv_conn [OF inv, of j c] inserted(2) False by simp
  qed
  have "srv_conns s' j = None \<longleftrightarrow> srv_conns s j = None" for j
    by (simp add: inserted(3) insert_session_def)
  with c show ?thesis using inv acc inserted by (simp add: sessions_inv_def)
next
  case (conn i cev c c')
  note f = sessions_inv_conn [OF inv conn(2)]
  note st = session_fire_step [OF f(1) conn(3,4) f(4)]
  have run: "ran e D (session_events i es @ [cev]) (view c')" by (rule ran_snoc [OF f(2) st(1)]) simp
  have ev: "events_of_one j ev = (if j = i then [cev] else [])" for j using conn(1) by auto
  have "srv_conns s' j = (if j = i then Some c' else srv_conns s j)" for j using conn(5) by simp
  moreover have "srv_next s' = srv_next s" "srv_inserting s' = srv_inserting s" "srv_accepting s' = srv_accepting s"
    using conn(5) by simp_all
  ultimately show ?thesis using run inv f(3,4) st(2,3) unfolding sessions_inv_def by (simp add: ev)
qed (use inv in \<open>auto simp: sessions_inv_def server_stop_def split: if_splits\<close>)

lemma sessions_inv_start: "started_server s \<Longrightarrow> sessions_inv e D [] s"
  by (simp add: started_server_def sessions_inv_def session_events_def)

lemma sessions_inv_stop: "sessions_inv e D es s \<Longrightarrow> sessions_inv e D es (server_stop s)"
  by (simp add: sessions_inv_def server_stop_def)

interpretation each: safe_machine "server_step ow e D J cfgs" started_server "sessions_inv e D" for ow e D J cfgs
  by unfold_locales (auto intro: sessions_inv_start sessions_inv_step)

subsection \<open>Sessions used too early\<close>

text \<open>A stopped session in the set stays there: nothing removes it any more.\<close>

definition stale :: "nat \<Rightarrow> server \<Rightarrow> bool" where
  "stale i s \<longleftrightarrow> i < srv_next s \<and> srv_inserting s \<noteq> Some i \<and>
     (\<exists>c. srv_conns s i = Some c \<and> rooted c \<and> stopped c \<and> in_sessions c)"

lemma stale_step:
  assumes "stale i s" and "server_step ow e D J cfgs s ev s'"
  shows "stale i s'"
  using assms(2)
proof (cases rule: server_stepE)
  case (conn j cev c c')
  then show ?thesis using assms(1) session_fire_rooted [OF _ conn(4)] by (auto simp: stale_def)
qed (use assms(1) in \<open>auto simp: stale_def server_stop_def insert_session_def\<close>)

interpretation staleness: safe_machine "server_step ow e D J cfgs" "stale i" "\<lambda>es. stale i" for ow e D J cfgs i
  by unfold_locales (auto intro: stale_step)

end
