(* ===== verification/Server_Props.thy ===== *)
theory Server_Props
  imports Server_Inv Config_Props
begin

section \<open>Properties of the server\<close>

text \<open>
  The limit on the number of sessions, the accept loop, the sessions as independent connections,
  the race between starting and inserting a session, the first connection of the program as it is,
  the constructor and the worker threads.
\<close>

subsection \<open>A concrete server\<close>

abbreviation demo_json :: "(jv, (string \<times> jv) list) json_ops" where
  "demo_json \<equiv> jv_ops (\<lambda>_. None)"

definition demo_config :: "(string \<times> jv) list config" where
  "demo_config = \<lparr>cfg_file_path = ''config.json'', cfg_root = []\<rparr>"

abbreviation demo_configs :: "(string \<times> jv) list config_reads" where
  "demo_configs \<equiv> same_config demo_config"

definition demo_new :: connection where
  "demo_new = (fresh_connection 300 10 10)\<lparr>in_sessions := False\<rparr>"

definition demo_server :: "u64 \<Rightarrow> server" where
  "demo_server m = \<lparr>srv_open = True, srv_accepting = 1, active_connections = 0, max_sessions = m,
     srv_conns = Map.empty, srv_next = 0, srv_inserting = None, srv_rejected = 0, srv_log = []\<rparr>"

lemma demo_server_started: "started_server (demo_server m)" "max_sessions (demo_server m) = m"
  by (simp_all add: demo_server_def started_server_def)

lemma demo_get_int: "get_int demo_json demo_config k d = Inr d"
  by (simp add: get_int_def find_key_def demo_config_def split: option.splits)

lemma demo_made:
  "made_session True demo_json demo_configs = Inr demo_new"
  by (auto simp: establish_defs demo_get_int demo_new_def fresh_connection_def)

lemma accept_success:
  assumes "srv_open s" and "active_connections s < max_sessions s"
    and "made_session ow J cfgs = Inr c"
  shows "accept_begin ow J cfgs None (Inr (a, p)) s =
    Inr (admit c (''client connected: '' @ a @ '':'' @ nat_to_string (unat p)) s)"
proof -
  obtain sess where "session_body ow J (cfg_session cfgs) = Inr sess" "start_body ow J cfgs sess = Inr c"
    using assms(3) by (auto simp: rbind_eq_Inr)
  then show ?thesis using assms(1,2)
    by (simp add: accept_begin_def add_connection_def admit_def Let_def)
qed

text \<open>Accepting and inserting one session of a started server.\<close>

definition demo_accepted :: "u64 \<Rightarrow> server" where
  "demo_accepted m = admit demo_new ''client connected: a:1'' ((demo_server m)\<lparr>srv_accepting := 0\<rparr>)"

lemma demo_accept:
  assumes "0 < m"
  shows "server_step True e D demo_json demo_configs (demo_server m) (SE_accept None (Inr (''a'', 1))) (demo_accepted m)"
proof -
  have "accept_begin True demo_json demo_configs None (Inr (''a'', 1)) ((demo_server m)\<lparr>srv_accepting := 0\<rparr>) =
      Inr (demo_accepted m)"
    using accept_success [OF _ _ demo_made, of "(demo_server m)\<lparr>srv_accepting := 0\<rparr>" "''a''" 1] assms
    by (simp add: demo_server_def demo_accepted_def nat_to_string.simps char_of_def bit_0)
  then show ?thesis by (simp add: server_step_iff) (simp add: demo_server_def)
qed

definition demo_inserted :: "u64 \<Rightarrow> server" where
  "demo_inserted m = do_accept ((insert_session 0 (demo_accepted m))\<lparr>srv_inserting := None\<rparr>)"

lemma demo_insert: "server_step ow e D J cfgs (demo_accepted m) (SE_insert 0) (demo_inserted m)"
proof -
  have "srv_inserting (demo_accepted m) = Some 0" by (simp add: demo_accepted_def demo_server_def)
  then show ?thesis by (simp add: server_step_iff accept_end_def demo_inserted_def)
qed

lemma demo_server_run:
  "0 < m \<Longrightarrow> steps (server_step True e D demo_json demo_configs) (demo_server m)
     [SE_accept None (Inr (''a'', 1)), SE_insert 0] (demo_inserted m)"
  by (rule steps_Cons [of "server_step True e D demo_json demo_configs", OF demo_accept
        steps_single [of "server_step True e D demo_json demo_configs", OF demo_insert]])

subsection \<open>The limit\<close>

text \<open>C10: The configured maximum limits the sessions of the whole life of the process: the server never
  holds more than \<open>max_sessions\<close> sessions, but a closed session never gives its place back, so
  while the acceptor is open exactly the first \<open>max_sessions\<close> connections are ever accepted and
  every later one is rejected, even when no session is left.\<close>

theorem max_sessions_is_a_lifetime_limit:
  assumes "started_server s0" and "max_sessions s0 = m" and "steps (server_step ow e D J cfgs) s0 es s"
  shows "sessions s \<subseteq> {..<srv_next s} \<and> card (sessions s) \<le> unat m \<and>
    unat (active_connections s) = srv_next s \<and> srv_next s \<le> unat m \<and>
    (srv_open s \<longrightarrow> srv_next s = min (attempts es) (unat m) \<and> srv_rejected s = attempts es - unat m)"
proof -
  have inv: "count_inv m es s" using counting.inv_steps [OF conjI [OF assms(1,2)] assms(3)] .
  then have sub: "sessions s \<subseteq> {..<srv_next s}" by (auto simp: count_inv_def sessions_def)
  then have "card (sessions s) \<le> srv_next s" using card_mono [of "{..<srv_next s}" "sessions s"] by simp
  with sub inv show ?thesis by (simp add: count_inv_def)
qed

theorem max_sessions_is_a_lifetime_limit_witness:
  "\<exists>s. steps (server_step True Little demo_archive demo_json demo_configs) (demo_server 1)
     [SE_accept None (Inr (''a'', 1)), SE_insert 0] s \<and> card (sessions s) \<le> 1"
  using max_sessions_is_a_lifetime_limit [OF demo_server_started demo_server_run [of 1 Little demo_archive]]
    demo_server_run [of 1 Little demo_archive] by auto

text \<open>C38: The accept loop goes on: at every moment of every run of the server, as long as the acceptor is
  open, exactly one accept is pending or, while the accept handler is inserting a session, none; when
  a completed accept does not lead to an insertion, because it failed or was rejected, the next one
  is pending at once; and an accept that completes after the acceptor was closed makes no session and
  starts no other. This holds for constructors with and without owners.\<close>

theorem accept_loop:
  assumes "started_server s0" and "steps (server_step ow e D J cfgs) s0 es s"
  shows "(srv_open s \<longrightarrow> srv_accepting s = (if srv_inserting s = None then 1 else 0)) \<and>
    (server_step ow e D J cfgs s (SE_accept err peer) s' \<longrightarrow>
      (srv_open s \<and> srv_inserting s' = None \<longrightarrow> srv_accepting s' = 1) \<and>
      (\<not> srv_open s \<longrightarrow> srv_accepting s' = 0 \<and> srv_conns s' = srv_conns s))"
proof -
  have inv: "count_inv (max_sessions s0) es s" using counting.inv_steps [OF _ assms(2)] assms(1) by simp
  have "count_inv (max_sessions s0) (es @ [SE_accept err peer]) s' \<and>
      srv_open s' = srv_open s \<and> (\<not> srv_open s \<longrightarrow> srv_accepting s' = 0 \<and> srv_conns s' = srv_conns s)"
    if st: "server_step ow e D J cfgs s (SE_accept err peer) s'"
    using st
    by (cases rule: server_stepE) (use inv count_inv_step [OF inv st] in \<open>auto simp: count_inv_def split: if_splits\<close>)
  with inv show ?thesis by (auto simp: count_inv_def split: if_splits)
qed

theorem accept_loop_witness:
  "srv_accepting (demo_inserted 1) = 1"
proof -
  have "srv_open (demo_inserted 1)" "srv_inserting (demo_inserted 1) = None"
    by (simp_all add: demo_inserted_def demo_accepted_def demo_server_def)
  with conjunct1 [OF accept_loop [OF demo_server_started(1) demo_server_run [of 1 Little demo_archive]]]
  show ?thesis by simp
qed

subsection \<open>Sessions\<close>

text \<open>Sessions do not interfere: whatever the interleaving of the handlers of all sessions and of the
  accept handler, each session has gone through a run of its own from an established connection, of
  exactly its own events, so all properties of a connection hold of each; the set of the server
  holds the sessions that have not stopped, but for the one being inserted and those inserted after
  they had stopped.\<close>

lemma sessions_run_independently:
  assumes "started_server s0" and "steps (server_step ow e D J cfgs) s0 es s" and "srv_conns s i = Some c"
  shows "(\<exists>c0. fresh c0 \<and> steps (held_step True e D) c0 (session_events i es) (view c)) \<and>
    (srv_inserting s \<noteq> Some i \<and> \<not> stopped c \<longrightarrow> i \<in> sessions s)"
proof -
  have inv: "sessions_inv e D es s" using each.inv_steps [OF assms(1,2)] .
  show ?thesis using sessions_inv_conn [OF inv assms(3)] assms(3) by (auto simp: ran_def sessions_def)
qed

lemma sessions_run_independently_demo: "0 \<in> sessions (demo_inserted 1)"
proof -
  have c: "srv_conns (demo_inserted 1) 0 = Some (fresh_connection 300 10 10)" "srv_inserting (demo_inserted 1) \<noteq> Some 0"
    by (simp_all add: demo_inserted_def demo_accepted_def demo_server_def insert_session_def demo_new_def
        fresh_connection_def)
  have "\<not> stopped (fresh_connection 300 10 10)" by (simp add: fresh_connection_def)
  with sessions_run_independently [OF demo_server_started(1) demo_server_run [of 1 Little demo_archive] c(1)] c(2)
  show ?thesis by simp
qed

text \<open>C21: The race of the accept handler: if the session stops after its \<open>start\<close> and before the handler
  inserts it, for instance because the client closed the connection at once, the handler inserts a
  stopped session, and no later event of any kind removes it: the close callback has run already.\<close>

theorem early_stop_leaves_stale_session:
  assumes "started_server s0" and "steps (server_step ow e D J cfgs) s0 es s"
    and "srv_inserting s = Some i" and "srv_conns s i = Some c" and "stopped c"
    and "steps (server_step ow e D J cfgs) s (SE_insert i # fs) t"
  shows "i \<in> sessions t \<and> (\<exists>c'. srv_conns t i = Some c' \<and> stopped c')"
proof -
  have "rooted_inv es s" by (rule rooting.inv_steps [OF assms(1,2)])
  then have r: "rooted c" "i < srv_next s" using assms(4) by (simp_all add: rooted_inv_def)
  let ?s = "accept_end s"
  have "stale i ?s" using r assms(3-5)
    by (simp add: stale_def accept_end_def insert_session_def)
  moreover obtain u where "server_step ow e D J cfgs s (SE_insert i) u" "steps (server_step ow e D J cfgs) u fs t"
    using assms(6) by (rule steps_ConsE)
  then have "steps (server_step ow e D J cfgs) ?s fs t" by (simp add: server_step_iff)
  ultimately have "stale i t" by (rule staleness.inv_steps)
  then show ?thesis by (auto simp: stale_def sessions_def)
qed

theorem early_stop_leaves_stale_session_witness:
  "\<exists>t c'. steps (server_step True Little demo_archive demo_json demo_configs) (demo_server 1)
     [SE_accept None (Inr (''a'', 1)), SE_conn 0 (Ev_read_length (Some (Asio_failure 2)) []), SE_insert 0] t \<and>
     0 \<in> sessions t \<and> srv_conns t 0 = Some c' \<and> stopped c'"
proof -
  let ?step = "server_step True Little demo_archive demo_json demo_configs"
  let ?ev = "Ev_read_length (Some (Asio_failure 2)) []"
  let ?c = "complete ?ev demo_new"
  let ?s = "(demo_accepted 1)\<lparr>srv_conns := (srv_conns (demo_accepted 1))(0 \<mapsto> stop_conn ?c)\<rparr>"
  have c: "srv_conns (demo_accepted 1) 0 = Some demo_new" "srv_inserting (demo_accepted 1) = Some 0"
    by (simp_all add: demo_accepted_def demo_server_def)
  have d: "owned demo_new" "on_close_set demo_new" "alive demo_new" "sock_open demo_new" "enabled demo_new ?ev"
    by (simp_all add: demo_new_def fresh_connection_def enabled_def)
  then have "dispatch Little demo_archive ?c ?ev = Inr (stop_conn ?c)" by (simp add: read_length_handler_outcome)
  then have "?step (demo_accepted 1) (SE_conn 0 ?ev) ?s" using c d by (simp add: server_step_iff)
  note st = steps_single [of ?step, OF this]
  have r: "steps ?step (demo_server 1) [SE_accept None (Inr (''a'', 1)), SE_conn 0 ?ev] ?s"
    using steps_Cons [of ?step, OF demo_accept [of 1 Little demo_archive] st] by simp
  have "?step ?s (SE_insert 0) (accept_end ?s)" using c by (simp add: server_step_iff)
  then have i: "steps ?step ?s [SE_insert 0] (accept_end ?s)" by (rule steps_single [of ?step])
  have "srv_inserting ?s = Some 0" "srv_conns ?s 0 = Some (stop_conn ?c)" "stopped (stop_conn ?c)" using c by simp_all
  from early_stop_leaves_stale_session [OF demo_server_started(1) r this i] steps_append [OF i r]
  show ?thesis by auto
qed

subsection \<open>The program as it is\<close>

text \<open>
  The program makes sessions whose constructor has no owner, so an accept that would be admitted
  always ends in an exception, \<open>bad_weak_ptr\<close> if the peer is still there and the configured idle
  timeout is an integer.
\<close>

lemma first_connection_is_fatal:
  assumes "srv_open s" and "active_connections s < max_sessions s"
  shows "accept_handler False J cfgs None peer s =
    rbind peer (\<lambda>_. rbind (get_int J (cfg_session cfgs) ''timeouts.idle_timeout_seconds'' 300) (\<lambda>_. Inl Bad_weak_ptr))"
proof -
  have "session_body False J (cfg_session cfgs) = rbind (get_int J (cfg_session cfgs) ''timeouts.idle_timeout_seconds'' 300) (\<lambda>_. Inl Bad_weak_ptr)"
    by (simp add: session_body_def check_idle_timer_def shared_from_this_def Let_def)
  then show ?thesis using assms
    by (cases peer; cases "get_int J (cfg_session cfgs) ''timeouts.idle_timeout_seconds'' 300")
      (auto simp: accept_handler_def accept_begin_def add_connection_def Let_def)
qed

lemma first_connection_is_fatal_demo:
  "accept_handler False demo_json demo_configs None (Inr (''a'', 1)) (demo_server 1) = Inl Bad_weak_ptr"
proof -
  have "srv_open (demo_server 1)" "active_connections (demo_server 1) < max_sessions (demo_server 1)"
    by (simp_all add: demo_server_def)
  from first_connection_is_fatal [OF this, of demo_json demo_configs "Inr (''a'', 1)"] show ?thesis
    by (simp add: demo_get_int)
qed

definition serves_nobody :: "server \<Rightarrow> bool" where
  "serves_nobody s \<longleftrightarrow> srv_conns s = Map.empty \<and> active_connections s = 0 \<and> srv_inserting s = None"

interpretation unowned: safe_machine "server_step False e D J cfgs" started_server "\<lambda>_. serves_nobody" for e D J cfgs
proof
  show "started_server s \<Longrightarrow> serves_nobody s" for s by (simp add: started_server_def serves_nobody_def)
  show "serves_nobody s \<Longrightarrow> server_step False e D J cfgs s ev s' \<Longrightarrow> serves_nobody s'" for s ev s'
    by (elim server_stepE) (auto simp: serves_nobody_def do_accept_def srv_logs_def server_stop_def)
qed

text \<open>The handler of an accept that would be admitted, in a server without sessions.\<close>

lemma accept_unowned:
  assumes "serves_nobody s" and "srv_open s" and "0 < max_sessions s"
  shows "server_fire False e D J cfgs s (SE_accept None peer) =
    rbind peer (\<lambda>_. rbind (get_int J (cfg_session cfgs) ''timeouts.idle_timeout_seconds'' 300) (\<lambda>_. Inl Bad_weak_ptr))"
proof -
  let ?s = "s\<lparr>srv_accepting := srv_accepting s - 1\<rparr>"
  have "accept_handler False J cfgs None peer ?s = rbind peer (\<lambda>_.
      rbind (get_int J (cfg_session cfgs) ''timeouts.idle_timeout_seconds'' 300) (\<lambda>_. Inl Bad_weak_ptr))"
    using assms by (intro first_connection_is_fatal) (simp_all add: serves_nobody_def)
  then show ?thesis
    by (cases "accept_begin False J cfgs None peer ?s"; cases peer;
        cases "get_int J (cfg_session cfgs) ''timeouts.idle_timeout_seconds'' 300") (auto simp: accept_handler_def)
qed

lemma server_new_started: "server_new make_address net J cfg = Inr (s, calls) \<Longrightarrow> started_server (start_accept s)"
  by (auto simp: server_new_def rbind_eq_Inr Let_def start_accept_def started_server_def do_accept_def srv_logs_def)

text \<open>C35: The constructor of the server: it succeeds only if the configuration has a boolean
  \<open>server.reuse_address\<close>, and then sets the option to false whatever that boolean is; it opens,
  configures, binds and listens in this order, on the port modulo 65536, and a negative
  \<open>max_sessions\<close> becomes a huge limit.\<close>

theorem server_constructor:
  assumes "json_ok J" and "server_new make_address net J cfg = Inr (s, calls)"
  shows "(\<exists>v b. config_value J (cfg_root cfg) ''server.reuse_address'' = Some v \<and> jo_as_bool J v = Inr b) \<and>
    started_server (start_accept s) \<and>
    (\<exists>host port backlog limit address.
      get_string J cfg ''server.address'' [] = Inr host \<and> get_int J cfg ''server.port'' 0 = Inr port \<and>
      get_int J cfg ''server.backlog'' 0 = Inr backlog \<and> get_int J cfg ''sessions.max_sessions'' 0 = Inr limit \<and>
      make_address host = Inr address \<and> list_all (\<lambda>x. net x = Inr ()) calls \<and>
      calls = [Acc_open address, Acc_reuse_address False, Acc_bind address (of_int port), Acc_listen backlog] \<and>
      uint (max_sessions s) = limit mod 2 ^ 64)"
proof -
  obtain host port reuse backlog limit address where
    g: "get_string J cfg ''server.address'' [] = Inr host" "get_int J cfg ''server.port'' 0 = Inr port"
      "get_bool J cfg ''server.reuse_address'' False = Inr reuse"
      "get_int J cfg ''server.backlog'' 0 = Inr backlog" "get_int J cfg ''sessions.max_sessions'' 0 = Inr limit"
      "make_address host = Inr address"
    and calls: "calls = [Acc_open address, Acc_reuse_address reuse, Acc_bind address (of_int port), Acc_listen backlog]"
      "acceptor_calls net calls = Inr ()"
    and s: "max_sessions s = of_int limit" "started_server (start_accept s)"
    using assms(2) server_new_started [OF assms(2)] by (auto simp: server_new_def rbind_eq_Inr Let_def srv_logs_def)
  have nb: "get_bool J cfg ''server.reuse_address'' False = (if jo_kind J v = K_bool then Inr False else jo_as_bool J v)"
    and kind: "jo_kind J v = K_bool \<longleftrightarrow> (\<exists>b. jo_as_bool J v = Inr b)"
    if "find_key J cfg ''server.reuse_address'' = Inr v" for v
    using that assms(1) by (simp_all add: get_bool_def json_ok_def)
  have null: "jo_kind J (jo_null J) = K_null" using assms(1) by (simp add: json_ok_def)
  let ?cv = "config_value J (cfg_root cfg) ''server.reuse_address''"
  let ?v = "case ?cv of None \<Rightarrow> jo_null J | Some v \<Rightarrow> v"
  have f: "find_key J cfg ''server.reuse_address'' = Inr ?v" by (rule find_key_value [OF assms(1)])
  have bool: "jo_kind J ?v = K_bool"
    using nb [OF f] kind [OF f] g(3) by (cases "jo_kind J ?v = K_bool") (simp, metis)
  then have "reuse = False" using nb [OF f] g(3) by simp
  moreover have "\<exists>v b. ?cv = Some v \<and> jo_as_bool J v = Inr b"
    using bool kind [OF f] null by (cases ?cv) auto
  ultimately have "(\<exists>v b. ?cv = Some v \<and> jo_as_bool J v = Inr b) \<and> reuse = False" by simp
  moreover have "acceptor_calls net xs = Inr () \<Longrightarrow> list_all (\<lambda>x. net x = Inr ()) xs" for xs
    by (induction xs) (auto simp: rbind_eq_Inr)
  ultimately show ?thesis using g calls s by (auto simp: uint_word_of_int rbind_eq_Inr)
qed

definition server_config :: "(string \<times> jv) list config" where
  "server_config = \<lparr>cfg_file_path = ''config.json'', cfg_root =
     [(''server'', JObj [(''port'', JInt 70000), (''reuse_address'', JBool True)])]\<rparr>"

theorem server_constructor_witness:
  "\<exists>s. server_new Inr (\<lambda>_. Inr ()) demo_json server_config =
     Inr (s, [Acc_open [], Acc_reuse_address False, Acc_bind [] 4464, Acc_listen 0])"
proof -
  have k: "get_string demo_json server_config ''server.address'' [] = Inr []"
    "get_int demo_json server_config ''server.port'' 0 = Inr 70000"
    "get_bool demo_json server_config ''server.reuse_address'' False = Inr False"
    "get_int demo_json server_config ''server.backlog'' 0 = Inr 0"
    "get_int demo_json server_config ''sessions.max_sessions'' 0 = Inr 0"
    by (simp_all add: get_string_def get_int_def get_bool_def find_key_def str_find_def server_config_def
        to_int32_def signed_take_bit_int_eq_self)
  obtain s calls where s: "server_new Inr (\<lambda>_. Inr ()) demo_json server_config = Inr (s, calls)"
    by (simp add: server_new_def k Let_def)
  from server_constructor [OF jv_ops_ok s] s k show ?thesis by auto
qed

subsection \<open>The workers\<close>

lemma spawn_workers_all:
  "(\<forall>j. i \<le> j \<and> j < n \<longrightarrow> spawn j) \<Longrightarrow> i \<le> n \<Longrightarrow> spawn_workers spawn n i ts = Inr (ts @ [i..<n])"
proof (induction spawn n i ts rule: spawn_workers.induct)
  case (1 spawn n i ts)
  then show ?case
    by (subst spawn_workers.simps) (auto simp: upt_conv_Cons [symmetric] upt_rec)
qed

text \<open>The workers: if the threads can be started, exactly \<open>thread_count\<close> of them are, and all are
  joined in the order they were started; with a missing count none is, so no handler ever runs. A
  negative count is read as one of more than 2 to the 63.\<close>

lemma workers_started_and_joined:
  assumes "get_int J cfg ''thread_pool.thread_count'' 0 = Inr n"
    and "\<forall>i. i < nat (n mod 2 ^ 64) \<longrightarrow> spawn i"
  shows "start_workers spawn J cfg = Inr [0..<nat (n mod 2 ^ 64)]"
proof -
  have u: "unat (of_int n :: u64) = nat (n mod 2 ^ 64)" by (simp add: unat_eq_nat_uint uint_word_of_int)
  have "map (\<lambda>i. [0..<k] ! i) [0..<k] = [0..<k]" for k by (simp add: list_eq_iff_nth_eq)
  then show ?thesis using assms spawn_workers_all [of 0 "nat (n mod 2 ^ 64)" spawn "[]"]
    by (simp add: start_workers_def u Let_def)
qed

lemma workers_started_and_joined_demo:
  "start_workers (\<lambda>_. True) demo_json demo_config = Inr []"
  using workers_started_and_joined [OF demo_get_int, of "\<lambda>_. True"] by simp

end
