(* ===== verification/Server_Timed.thy ===== *)
theory Server_Timed
  imports Server_Props Timers_Props
begin

section \<open>The server in time\<close>

text \<open>
  One clock for the server and all its sessions, each with timers of its own, which start when the
  accept handler has set the session up. Every accept has the configurations its constructors find,
  which reloads may have replaced, also between one constructor and the next.
\<close>

record timed_server =
  ts_clock :: int
  ts_server :: server
  ts_timers :: "nat \<Rightarrow> timer_id \<Rightarrow> timer"

datatype 'o timed_server_event =
    TS_pass int
  | TS_expire nat timer_id
  | TS_do "'o config_reads" server_event

definition server_timers ::
  "int \<Rightarrow> server \<Rightarrow> server_event \<Rightarrow> server \<Rightarrow> (nat \<Rightarrow> timer_id \<Rightarrow> timer) \<Rightarrow> nat \<Rightarrow> timer_id \<Rightarrow> timer"
where
  "server_timers n s ev s' k i =
     (case (srv_conns s i, srv_conns s' i) of
        (None, Some c') \<Rightarrow> start_timer n c'
      | (Some c, Some c') \<Rightarrow>
          (case ev of
             SE_conn j cev \<Rightarrow> if j = i then (\<lambda>t. step_timer n c cev c' t (k i t)) else k i
           | _ \<Rightarrow> k i)
      | _ \<Rightarrow> k i)"

text \<open>A session as a connection in time.\<close>

definition session_view :: "nat \<Rightarrow> timed_server \<Rightarrow> timed option" where
  "session_view i s =
     map_option (\<lambda>c. \<lparr>clock = ts_clock s, timer_of = ts_timers s i, connection_of = view c\<rparr>)
       (srv_conns (ts_server s) i)"

fun server_allows :: "timed_server \<Rightarrow> server_event \<Rightarrow> bool" where
  "server_allows s (SE_conn i ev) \<longleftrightarrow>
     (case session_view i s of Some v \<Rightarrow> wait_allows v ev | None \<Rightarrow> False)"
| "server_allows s _ \<longleftrightarrow> True"

inductive timed_server_step ::
  "bool \<Rightarrow> endian \<Rightarrow> archive_reader \<Rightarrow> ('v, 'o) json_ops \<Rightarrow>
     timed_server \<Rightarrow> 'o timed_server_event \<Rightarrow> timed_server \<Rightarrow> bool"
  for ow :: bool and e :: endian and D :: archive_reader and J :: "('v, 'o) json_ops"
where
  ts_pass: "0 \<le> d \<Longrightarrow> timed_server_step ow e D J s (TS_pass d) (s\<lparr>ts_clock := ts_clock s + d\<rparr>)"
| ts_expire: "session_view i s \<noteq> None \<Longrightarrow> wait (ts_timers s i t) = Armed \<Longrightarrow>
    passed (ts_clock s) (deadline (ts_timers s i t)) \<Longrightarrow>
    timed_server_step ow e D J s (TS_expire i t)
      (s\<lparr>ts_timers := (ts_timers s)(i := (ts_timers s i)(t := (ts_timers s i t)\<lparr>wait := Due\<rparr>))\<rparr>)"
| ts_do: "server_step ow e D J cfgs (ts_server s) ev s' \<Longrightarrow> server_allows s ev \<Longrightarrow>
    timed_server_step ow e D J s (TS_do cfgs ev)
      (s\<lparr>ts_server := s', ts_timers := server_timers (ts_clock s) (ts_server s) ev s' (ts_timers s)\<rparr>)"

text \<open>Prompt workers: no time passes while a wait of any session is due or aborted, nor beyond a deadline.\<close>

fun server_prompt :: "timed_server \<Rightarrow> 'o timed_server_event \<Rightarrow> bool" where
  "server_prompt s (TS_pass d) \<longleftrightarrow>
     list_all (\<lambda>i. case session_view i s of Some v \<Rightarrow> prompt v (T_pass d) | None \<Rightarrow> True)
       [0..<srv_next (ts_server s)]"
| "server_prompt s _ \<longleftrightarrow> True"

definition prompt_server_step ::
  "bool \<Rightarrow> endian \<Rightarrow> archive_reader \<Rightarrow> ('v, 'o) json_ops \<Rightarrow>
     timed_server \<Rightarrow> 'o timed_server_event \<Rightarrow> timed_server \<Rightarrow> bool"
where
  "prompt_server_step ow e D J s x s' \<longleftrightarrow> timed_server_step ow e D J s x s' \<and> server_prompt s x"

lemma prompt_server_timed:
  "steps (prompt_server_step ow e D J) s es t \<Longrightarrow> steps (timed_server_step ow e D J) s es t"
  by (induction rule: steps.induct) (auto simp: prompt_server_step_def intro: steps.intros)

subsection \<open>Each session is a connection in time\<close>

text \<open>What one session sees of an event of the server.\<close>

fun session_share :: "nat \<Rightarrow> 'o timed_server_event \<Rightarrow> timed_event list" where
  "session_share i (TS_pass d) = [T_pass d]"
| "session_share i (TS_expire j t) = (if j = i then [T_expire t] else [])"
| "session_share i (TS_do cfgs (SE_conn j ev)) = (if j = i then [T_do ev] else [])"
| "session_share i _ = []"

definition known :: "endian \<Rightarrow> archive_reader \<Rightarrow> timed_server \<Rightarrow> bool" where
  "known e D s \<longleftrightarrow> (\<exists>es. sessions_inv e D es (ts_server s))"

lemma known_step: "known e D s \<Longrightarrow> timed_server_step ow e D J s x s' \<Longrightarrow> known e D s'"
  by (erule timed_server_step.cases) (auto simp: known_def dest: sessions_inv_step)

lemma view_frame:
  assumes "srv_conns s' i = srv_conns (ts_server s) i"
    and "\<And>cev. ev \<noteq> SE_conn i cev"
  shows "session_view i (s\<lparr>ts_server := s', ts_timers := server_timers (ts_clock s) (ts_server s) ev s' (ts_timers s)\<rparr>)
    = session_view i s"
  using assms by (auto simp: session_view_def server_timers_def split: option.splits server_event.splits)

lemma session_new:
  assumes "timed_server_step ow e D J s x s'" and "session_view i s = None" and "session_view i s' = Some v"
  shows "timed_fresh v"
  using assms(1)
proof cases
  case (ts_do cfgs ev s1)
  have none: "srv_conns (ts_server s) i = None" using assms(2) by (simp add: session_view_def)
  from ts_do(3) show ?thesis
  proof (cases rule: server_stepE)
    case (accepted c m peer)
    have "fresh (view c)" "srv_conns s1 i = Some c"
      using accepted(7,8) assms(3) none fresh_view [of c] by (auto simp: session_view_def ts_do(2) split: if_splits)
    then have "v = start_timed (ts_clock s) (view c)"
      using assms(3) none by (auto simp: session_view_def ts_do(2) start_timed_def server_timers_def start_timer_def fun_eq_iff split: timer_id.splits)
    then show ?thesis using \<open>fresh (view c)\<close> by (auto simp: timed_fresh_def)
  qed (use none assms(3) in \<open>auto simp: session_view_def ts_do(2) insert_session_def server_stop_def split: if_splits\<close>)
qed (use assms(2,3) in \<open>auto simp: session_view_def\<close>)

lemma step_timer_view: "step_timer n (view c) ev (view c') t k = step_timer n c ev c' t k"
  by (simp add: step_timer_def new_effects_def)

text \<open>A step of the session itself, and one of another session or of the acceptor.\<close>

lemma session_acts:
  assumes "known e D s" and "server_step ow e D J cfgs (ts_server s) (SE_conn i cev) s1"
    and "server_allows s (SE_conn i cev)" and "session_view i s = Some v"
  obtains v' where "timed_step True e D v (T_do cev) v'"
    and "session_view i (s\<lparr>ts_server := s1,
      ts_timers := server_timers (ts_clock s) (ts_server s) (SE_conn i cev) s1 (ts_timers s)\<rparr>) = Some v'"
proof -
  obtain es where inv: "sessions_inv e D es (ts_server s)" using assms(1) by (auto simp: known_def)
  from assms(2) obtain c c' where c: "srv_conns (ts_server s) i = Some c" "enabled c cev"
    "session_fire (srv_inserting (ts_server s) = Some i) e D c cev = Inr c'"
    "s1 = (ts_server s)\<lparr>srv_conns := (srv_conns (ts_server s))(i \<mapsto> c')\<rparr>"
    by (cases rule: server_stepE) auto
  note f = sessions_inv_conn [OF inv c(1)]
  have st: "held_step True e D (view c) cev (view c')" by (rule session_fire_step(1) [OF f(1) c(2,3) f(4)])
  let ?v = "v\<lparr>timer_of := \<lambda>t. step_timer (clock v) (connection_of v) cev (view c') t (timer_of v t),
    connection_of := view c'\<rparr>"
  have v: "v = \<lparr>clock = ts_clock s, timer_of = ts_timers s i, connection_of = view c\<rparr>"
    using assms(4) c(1) by (auto simp: session_view_def)
  have "timed_step True e D v (T_do cev) ?v"
    using assms(3,4) st by (intro timed_step.act) (simp_all add: v)
  then show thesis
    by (rule that) (use c in \<open>simp add: v session_view_def server_timers_def step_timer_view\<close>)
qed

lemma session_stays:
  assumes "known e D s" and "server_step ow e D J cfgs (ts_server s) ev s1" and "\<And>cev. ev \<noteq> SE_conn i cev"
    and "session_view i s = Some v"
  shows "session_view i (s\<lparr>ts_server := s1,
    ts_timers := server_timers (ts_clock s) (ts_server s) ev s1 (ts_timers s)\<rparr>) = Some v"
  using assms(2)
proof (cases rule: server_stepE)
  case (accepted c2 m peer)
  obtain es where inv: "sessions_inv e D es (ts_server s)" using assms(1) by (auto simp: known_def)
  have "i \<noteq> srv_next (ts_server s)" using inv assms(4) by (auto simp: sessions_inv_def session_view_def)
  then show ?thesis using assms(4) accepted(1,8) by (simp add: view_frame)
next
  case (inserted j)
  then show ?thesis using assms(4) by (auto simp: session_view_def server_timers_def insert_session_def)
next
  case (conn j cev d c')
  then have "j \<noteq> i" using assms(3) by blast
  then show ?thesis using assms(4) conn(1,5) by (simp add: view_frame)
qed (use assms(4) in \<open>simp_all add: view_frame server_stop_def\<close>)

lemma session_moves:
  assumes "known e D s" and "timed_server_step ow e D J s x s'" and "session_view i s = Some v"
  obtains v' where "session_view i s' = Some v'" and "steps (timed_step True e D) v (session_share i x) v'"
  using assms(2)
proof cases
  case (ts_pass d)
  let ?v = "v\<lparr>clock := clock v + d\<rparr>"
  have "timed_step True e D v (T_pass d) ?v" using ts_pass(3) by (rule timed_step.pass)
  then show thesis using that [of ?v] steps_single [where step = "timed_step True e D"] assms(3)
    by (auto simp: ts_pass session_view_def)
next
  case (ts_expire j t)
  show thesis
  proof (cases "j = i")
    case True
    let ?v = "v\<lparr>timer_of := (timer_of v)(t := (timer_of v t)\<lparr>wait := Due\<rparr>)\<rparr>"
    have "timed_step True e D v (T_expire t) ?v"
      using ts_expire(4,5) assms(3) True by (intro timed_step.expire) (auto simp: session_view_def)
    then show thesis using that [of ?v] steps_single [where step = "timed_step True e D"] assms(3) True
      by (auto simp: ts_expire session_view_def)
  next
    case False
    then show thesis using that [of v] assms(3) by (auto simp: ts_expire session_view_def steps_nil)
  qed
next
  case (ts_do cfgs ev s1)
  note st = ts_do(3)
  show thesis
  proof (cases "\<exists>cev. ev = SE_conn i cev")
    case True
    then obtain cev where ev: "ev = SE_conn i cev" ..
    obtain v' where "timed_step True e D v (T_do cev) v'" "session_view i s' = Some v'"
      using session_acts [OF assms(1) st [unfolded ev] ts_do(4) [unfolded ev] assms(3)] by (auto simp: ts_do(2) ev)
    then show thesis using that [of v'] steps_single [where step = "timed_step True e D"] by (simp add: ts_do(1) ev)
  next
    case False
    then have "session_view i s' = Some v" using session_stays [OF assms(1) st _ assms(3)] by (simp add: ts_do(2))
    moreover have "session_share i x = []" using False by (cases ev) (auto simp: ts_do(1))
    ultimately show thesis using that [of v] by (simp add: steps_nil)
  qed
qed

definition follows :: "endian \<Rightarrow> archive_reader \<Rightarrow> nat \<Rightarrow> timed_server \<Rightarrow> timed \<Rightarrow> bool" where
  "follows e D i s v \<longleftrightarrow> known e D s \<and> session_view i s = Some v"

lemma follows_prompt:
  assumes "follows e D i s v" and "prompt_server_step ow e D J s x s'"
  shows "\<exists>v'. steps (prompt_step True e D) v (session_share i x) v' \<and> follows e D i s' v'"
proof -
  have st: "timed_server_step ow e D J s x s'" and pr: "server_prompt s x"
    using assms(2) by (simp_all add: prompt_server_step_def)
  have k: "known e D s" and v: "session_view i s = Some v" using assms(1) by (simp_all add: follows_def)
  obtain v' where v': "session_view i s' = Some v'" "steps (timed_step True e D) v (session_share i x) v'"
    by (rule session_moves [OF k st v])
  have "i < srv_next (ts_server s)"
    using k v by (force simp: known_def sessions_inv_def session_view_def not_le [symmetric])
  then have "prompt v (T_pass d)" if "x = TS_pass d" for d
    using bspec [where x = i, OF pr [unfolded that server_prompt.simps list_all_iff]] v by simp
  then have "list_all (prompt v) (session_share i x)"
    by (cases "(i, x)" rule: session_share.cases) (simp_all del: prompt.simps(1))
  moreover have "length (session_share i x) \<le> 1" by (cases "(i, x)" rule: session_share.cases) simp_all
  ultimately have "steps (prompt_step True e D) v (session_share i x) v'"
    using v'(2) by (cases "session_share i x")
      (auto simp: steps_Nil_iff prompt_step_def intro!: steps_single elim!: steps_ConsE)
  then show ?thesis using v'(1) known_step [OF k st] by (auto simp: follows_def)
qed

interpretation session: simulation "prompt_server_step ow e D J" "prompt_step True e D" "follows e D i"
  "\<lambda>s x s'. session_share i x" for ow e D J i
  by unfold_locales (rule follows_prompt)

text \<open>From its acceptance on, a session is a prompt run of a connection that has just been set up.\<close>

lemma session_past:
  assumes "steps (prompt_server_step ow e D J) s0 es s" and "started_server (ts_server s0)"
  shows "known e D s \<and> (\<forall>v. session_view i s = Some v \<longrightarrow> (\<exists>v0 fs. timed_fresh v0 \<and> steps (prompt_step True e D) v0 fs v))"
  using assms
proof (induction rule: steps.induct)
  case (steps_nil s)
  then show ?case using sessions_inv_start [of "ts_server s" e D]
    by (auto simp: known_def session_view_def started_server_def)
next
  case (steps_snoc s es t x u)
  then have k: "known e D t" by blast
  have st: "timed_server_step ow e D J t x u" using steps_snoc.hyps(2) by (simp add: prompt_server_step_def)
  have "\<exists>v0 fs. timed_fresh v0 \<and> steps (prompt_step True e D) v0 fs v" if v: "session_view i u = Some v" for v
  proof (cases "session_view i t")
    case None
    then have "timed_fresh v" using session_new [OF st _ v] by simp
    then show ?thesis using steps.steps_nil [of "prompt_step True e D" v] by (intro exI conjI)
  next
    case (Some w)
    then obtain w' where w': "steps (prompt_step True e D) w (session_share i x) w'" "follows e D i u w'"
      using follows_prompt [OF _ steps_snoc.hyps(2), of i w] k by (auto simp: follows_def)
    then have same: "w' = v" using v by (simp add: follows_def)
    obtain v0 fs where v0: "timed_fresh v0" "steps (prompt_step True e D) v0 fs w"
      using steps_snoc.IH [OF steps_snoc.prems] Some by blast
    show ?thesis using v0(1) steps_append [OF w'(1) v0(2)] unfolding same by (intro exI conjI)
  qed
  then show ?case using known_step [OF k st] by blast
qed

definition timed_session_events :: "nat \<Rightarrow> 'o timed_server_event list \<Rightarrow> event list" where
  "timed_session_events i xs = events_done (concat (map (session_share i) xs))"

text \<open>What a session in the set can do in time, the server can.\<close>

definition served :: "nat \<Rightarrow> timed_server \<Rightarrow> timed \<Rightarrow> bool" where
  "served i s v \<longleftrightarrow> srv_inserting (ts_server s) = None \<and> life_ok (connection_of v) \<and>
     srv_conns (ts_server s) i = Some (connection_of v) \<and> clock v = ts_clock s \<and> timer_of v = ts_timers s i"

lemma life_view: "life_ok c \<Longrightarrow> view c = c"
proof -
  assume "life_ok c"
  then have "in_sessions c \<longleftrightarrow> \<not> stopped c" by (auto simp: life_ok_def)
  then show ?thesis by (simp add: view_def)
qed

lemma served_view: "served i s v \<Longrightarrow> session_view i s = Some v"
  by (simp add: served_def session_view_def life_view)

lemma session_act:
  assumes "served i s v" and "timed_step False e D v (T_do ev) v'"
  obtains s' where "timed_server_step ow e D J s (TS_do cfgs (SE_conn i ev)) s'" and "served i s' v'"
    and "srv_next (ts_server s') = srv_next (ts_server s)" and "ts_clock s' = ts_clock s"
proof -
  obtain c' where c': "conn_step e D (connection_of v) ev c'" "wait_allows v ev"
    "v' = v\<lparr>timer_of := \<lambda>t. step_timer (clock v) (connection_of v) ev c' t (timer_of v t), connection_of := c'\<rparr>"
    using assms(2) by (auto simp: held_conn elim: timed_doE)
  have c: "srv_inserting (ts_server s) = None" "life_ok (connection_of v)"
    "srv_conns (ts_server s) i = Some (connection_of v)" "clock v = ts_clock s" "timer_of v = ts_timers s i"
    using assms(1) by (simp_all add: served_def)
  let ?s = "(ts_server s)\<lparr>srv_conns := (srv_conns (ts_server s))(i \<mapsto> c')\<rparr>"
  have "server_step ow e D J cfgs (ts_server s) (SE_conn i ev) ?s"
    using c c'(1) by (simp add: server_step_iff conn_step_iff)
  then have st: "timed_server_step ow e D J s (TS_do cfgs (SE_conn i ev))
      (s\<lparr>ts_server := ?s, ts_timers := server_timers (ts_clock s) (ts_server s) (SE_conn i ev) ?s (ts_timers s)\<rparr>)"
    using c'(2) served_view [OF assms(1)] by (intro ts_do) simp_all
  have life: "life_ok c'" by (rule life_step [OF c(2) conn_held [OF c'(1)]])
  from st show thesis
    by (rule that) (use life c c'(3) in \<open>auto simp: served_def server_timers_def\<close>)
qed

text \<open>A server that has accepted one session.\<close>

definition demo_ts :: "nat \<Rightarrow> timed_server" where
  "demo_ts k = \<lparr>ts_clock = 0, ts_server = (if k = 0 then demo_server 1 else if k = 1 then demo_accepted 1 else demo_inserted 1),
     ts_timers = (\<lambda>i. start_timer 0 demo_connection)\<rparr>"

lemma demo_ts_run:
  "steps (prompt_server_step True Little demo_archive demo_json) (demo_ts 0)
     [TS_do demo_configs (SE_accept None (Inr (''a'', 1))), TS_do demo_configs (SE_insert 0)] (demo_ts 2)"
  "served 0 (demo_ts 2) (start_timed 0 demo_connection)"
  "srv_next (ts_server (demo_ts 2)) = 1"
proof -
  let ?step = "prompt_server_step True Little demo_archive demo_json"
  let ?ev1 = "SE_accept None (Inr (''a'', 1))"
  have new: "start_timer 0 demo_new = start_timer 0 demo_connection"
    by (auto simp: demo_new_def demo_connection_def start_timer_def split: timer_id.splits)
  have 1: "server_step True Little demo_archive demo_json demo_configs (ts_server (demo_ts 0)) ?ev1 (demo_accepted 1)"
    using demo_accept [of 1 Little demo_archive] by (simp add: demo_ts_def)
  have "server_timers 0 (demo_server 1) ?ev1 (demo_accepted 1) (\<lambda>i. start_timer 0 demo_connection) =
      (\<lambda>i. start_timer 0 demo_connection)"
    by (auto simp: server_timers_def demo_server_def demo_accepted_def new)
  then have s1: "?step (demo_ts 0) (TS_do demo_configs ?ev1) (demo_ts 1)"
    using ts_do [OF 1] by (simp add: prompt_server_step_def demo_ts_def)
  have 2: "server_step True Little demo_archive demo_json demo_configs (ts_server (demo_ts 1)) (SE_insert 0) (demo_inserted 1)"
    using demo_insert by (simp add: demo_ts_def)
  have "server_timers 0 (demo_accepted 1) (SE_insert 0) (demo_inserted 1) (\<lambda>i. start_timer 0 demo_connection) =
      (\<lambda>i. start_timer 0 demo_connection)"
    by (auto simp: server_timers_def demo_server_def demo_accepted_def demo_inserted_def insert_session_def)
  then have s2: "?step (demo_ts 1) (TS_do demo_configs (SE_insert 0)) (demo_ts 2)"
    using ts_do [OF 2] by (simp add: prompt_server_step_def demo_ts_def)
  show "steps ?step (demo_ts 0) [TS_do demo_configs ?ev1, TS_do demo_configs (SE_insert 0)] (demo_ts 2)"
    by (rule steps_Cons [where step = ?step, OF s1 steps_single [where step = ?step, OF s2]])
  show "served 0 (demo_ts 2) (start_timed 0 demo_connection)"
    using life_fresh [OF demo_facts(1)]
    by (auto simp: served_def demo_ts_def demo_inserted_def insert_session_def demo_accepted_def start_timed_def
        demo_server_def demo_new_def demo_connection_def fresh_connection_def)
  show "srv_next (ts_server (demo_ts 2)) = 1"
    by (simp_all add: demo_ts_def demo_inserted_def demo_accepted_def demo_server_def)
qed

subsection \<open>Every session is timed out\<close>

text \<open>C13: No session outstays its timeouts: in every prompt run of the server with any number of sessions,
  whatever is accepted, reloaded or stopped meanwhile, and whether a session is used before it was
  inserted or not, while a session stays open at most its read timeout passes without a successful
  read of its own, at most its idle timeout without a call of \<open>write_packet\<close> on it, whatever its peer
  sends, and, with a packet queued, at most its write timeout without a completed write or a posted
  packet. A negative timeout counts as zero. This holds for constructors with and without owners;
  without, as in the program, there is never a session.\<close>

theorem every_session_is_timed_out:
  assumes "started_server (ts_server s0)" and "steps (prompt_server_step ow e D J) s0 es s1"
    and "srv_conns (ts_server s1) i \<noteq> None" and "steps (prompt_server_step ow e D J) s1 fs s2"
    and "srv_conns (ts_server s2) i = Some c" and "sock_open c" and "t = Write_timer \<longrightarrow> queue c \<noteq> []"
    and "list_all (\<lambda>ev. \<not> progress t ev) (timed_session_events i fs)"
  shows "ts_clock s2 - ts_clock s1 \<le> max 0 (seconds_of t c)"
proof -
  obtain v1 where v1: "session_view i s1 = Some v1" using assms(3) by (auto simp: session_view_def)
  obtain v0 gs where v0: "timed_fresh v0" "steps (prompt_step True e D) v0 gs v1"
    using session_past [OF assms(2,1)] v1 by blast
  have "follows e D i s1 v1" using session_past [OF assms(2,1)] v1 by (simp add: follows_def)
  then obtain v2 where v2: "steps (prompt_step True e D) v1 (concat (map (session_share i) fs)) v2" "session_view i s2 = Some v2"
    using session.sim_trace [OF assms(4) _ refl] by (auto simp: follows_def)
  have c: "sock_open (connection_of v2) = sock_open c" "queue (connection_of v2) = queue c"
    "seconds_of t (connection_of v2) = seconds_of t c" "clock v2 = ts_clock s2" "clock v1 = ts_clock s1"
    using v1 v2(2) assms(5) by (cases t; auto simp: session_view_def)+
  have "timed_inv [] v0" using v0(1) by (rule timed.inv_start)
  then have "seconds_of t (connection_of v2) = seconds_of t (connection_of v0)"
    using seconds_run [OF prompt_timed [OF steps_append [OF v2(1) v0(2)]]] by blast
  then show ?thesis
    using silence_is_bounded [OF v0 v2(1), of t] assms(6-8) c by (simp add: timed_session_events_def)
qed

theorem every_session_is_timed_out_witness:
  "\<exists>s fs. steps (prompt_server_step True Little demo_archive demo_json) (demo_ts 2) fs s \<and> ts_clock s = 10 \<and>
     ts_clock s - ts_clock (demo_ts 2) \<le> max 0 10 \<and> (\<exists>c. srv_conns (ts_server s) 0 = Some c \<and> sock_open c)"
proof -
  let ?step = "prompt_server_step True Little demo_archive demo_json"
  let ?again = "\<lambda>t. TS_do demo_configs (SE_conn 0 (Ev_wait t (Some Operation_aborted)))"
  obtain v1 v2 where v: "prompt_step False Little demo_archive (start_timed 0 demo_connection) (T_do (Ev_wait Idle_timer (Some Operation_aborted))) v1"
    "prompt_step False Little demo_archive v1 (T_do (Ev_wait Read_timer (Some Operation_aborted))) v2"
    "prompt_step False Little demo_archive v2 (T_pass 10) demo_late"
    using demo_late_run by (fastforce elim!: steps_ConsE simp: steps_Nil_iff)
  have v': "timed_step False Little demo_archive (start_timed 0 demo_connection) (T_do (Ev_wait Idle_timer (Some Operation_aborted))) v1"
    "timed_step False Little demo_archive v1 (T_do (Ev_wait Read_timer (Some Operation_aborted))) v2"
    using v(1,2) by (simp_all add: prompt_step_def)
  obtain s1 where 1: "timed_server_step True Little demo_archive demo_json (demo_ts 2) (?again Idle_timer) s1"
    "served 0 s1 v1" "srv_next (ts_server s1) = 1"
    using session_act [OF demo_ts_run(2) v'(1)] demo_ts_run(3) by metis
  obtain s2 where 2: "timed_server_step True Little demo_archive demo_json s1 (?again Read_timer) s2"
    "served 0 s2 v2" "srv_next (ts_server s2) = 1"
    using session_act [OF 1(2) v'(2)] 1(3) by metis
  let ?s = "s2\<lparr>ts_clock := ts_clock s2 + 10\<rparr>"
  have p: "prompt v2 (T_pass 10)" and late: "demo_late = v2\<lparr>clock := clock v2 + 10\<rparr>"
    using v(3) by (auto simp: prompt_step_def elim: timed_passE)
  have "server_prompt s2 (TS_pass 10)" using p 2(3) served_view [OF 2(2)] by (simp del: prompt.simps)
  then have 3: "?step s2 (TS_pass 10) ?s" by (simp add: prompt_server_step_def ts_pass)
  have "?step (demo_ts 2) (?again Idle_timer) s1" "?step s1 (?again Read_timer) s2"
    using 1(1) 2(1) by (simp_all add: prompt_server_step_def)
  then have run: "steps ?step (demo_ts 2) [?again Idle_timer, ?again Read_timer, TS_pass 10] ?s"
    using steps_Cons [where step = ?step] steps_single [where step = ?step, OF 3] by blast
  obtain c where c: "srv_conns (ts_server ?s) 0 = Some c" and v2: "connection_of v2 = c" "clock v2 = ts_clock s2"
    using 2(2) by (simp add: served_def)
  have clock: "ts_clock ?s = 10" and conn: "c = demo_connection"
    using demo_late_fields(1,2) v2 unfolding late by simp_all
  have "sock_open c" "seconds_of Read_timer c = 10" by (simp_all add: conn demo_facts) (simp add: demo_connection_def fresh_connection_def)
  have "srv_conns (ts_server (demo_ts 2)) 0 \<noteq> None" using demo_ts_run(2) by (simp add: served_def)
  from every_session_is_timed_out [OF _ demo_ts_run(1) this run c \<open>sock_open c\<close>, of Read_timer]
  have "ts_clock ?s - ts_clock (demo_ts 2) \<le> max 0 10"
    by (simp add: demo_ts_def demo_server_started timed_session_events_def events_done_def
        \<open>seconds_of Read_timer c = 10\<close> [simplified])
  with run clock c \<open>sock_open c\<close> show ?thesis by blast
qed

end
