(* ===== verification/Server_History.thy ===== *)
theory Server_History
  imports Server_Timed
begin

section \<open>The history of a session\<close>

text \<open>
  In any run of the server in time, prompt or not, what has happened to a session since it was
  accepted is a run of a connection in time, with exactly the events the server's run has for the
  session. So what is known of the runs of a connection holds for every session of the server.
\<close>

interpretation moving: simulation "timed_server_step ow e D J" "timed_step True e D" "follows e D i"
  "\<lambda>s x s'. session_share i x" for ow e D J i
proof
  show "\<exists>v'. steps (timed_step True e D) v (session_share i x) v' \<and> follows e D i s' v'"
    if "follows e D i s v" "timed_server_step ow e D J s x s'" for s v x s'
    using that session_moves [of e D s ow J x s' i v] known_step [of e D s ow J x s']
    by (metis follows_def)
qed

lemma unborn_session:
  assumes "session_view i s = None" and "timed_server_step ow e D J s x s'"
  shows "timed_session_events i [x] = []"
  using assms(2)
proof cases
  case (ts_do cfgs ev s1)
  then show ?thesis using assms(1)
    by (cases ev) (auto simp: timed_session_events_def events_done_def)
qed (auto simp: timed_session_events_def events_done_def)

lemma timed_session_events_snoc:
  "timed_session_events i (es @ [x]) = timed_session_events i es @ timed_session_events i [x]"
  by (simp add: timed_session_events_def events_done_def)

lemma session_history:
  assumes "steps (timed_server_step ow e D J) s0 es s" and "started_server (ts_server s0)"
  shows "known e D s \<and>
    (case session_view i s of
       None \<Rightarrow> timed_session_events i es = []
     | Some v \<Rightarrow> \<exists>v0 gs. timed_fresh v0 \<and> steps (timed_step True e D) v0 gs v \<and>
         events_done gs = timed_session_events i es)"
  using assms
proof (induction rule: steps.induct)
  case (steps_nil s)
  then show ?case using sessions_inv_start [of "ts_server s" e D]
    by (auto simp: known_def session_view_def started_server_def timed_session_events_def events_done_def)
next
  case (steps_snoc s es t x u)
  then have k: "known e D t" by blast
  have IH: "case session_view i t of None \<Rightarrow> timed_session_events i es = []
     | Some v \<Rightarrow> \<exists>v0 gs. timed_fresh v0 \<and> steps (timed_step True e D) v0 gs v \<and> events_done gs = timed_session_events i es"
    using steps_snoc.IH [OF steps_snoc.prems] by blast
  note snoc = timed_session_events_snoc [of i es x] and st = steps_snoc.hyps(2)
  show ?case
  proof (cases "session_view i t")
    case None
    then have none: "timed_session_events i (es @ [x]) = []"
      using IH unborn_session [OF None st] by (simp add: snoc)
    have "timed_fresh v" if "session_view i u = Some v" for v using session_new [OF st None that] .
    then have "\<exists>v0 gs. timed_fresh v0 \<and> steps (timed_step True e D) v0 gs v \<and> events_done gs = []"
      if "session_view i u = Some v" for v
      using that steps.steps_nil [of "timed_step True e D" v] by (intro exI [of _ v] exI [of _ "[]"]) (simp add: events_done_def)
    then show ?thesis using none known_step [OF k st] by (auto split: option.splits)
  next
    case (Some w)
    obtain v where v: "session_view i u = Some v" "steps (timed_step True e D) w (session_share i x) v"
      by (rule session_moves [OF k st Some])
    obtain v0 gs where v0: "timed_fresh v0" "steps (timed_step True e D) v0 gs w" "events_done gs = timed_session_events i es"
      using IH Some by auto
    have "events_done (gs @ session_share i x) = timed_session_events i (es @ [x])"
      by (simp add: v0(3)[symmetric] snoc) (simp add: timed_session_events_def events_done_def)
    then have "\<exists>v0 gs. timed_fresh v0 \<and> steps (timed_step True e D) v0 gs v \<and>
        events_done gs = timed_session_events i (es @ [x])"
      using v0(1) steps_append [OF v(2) v0(2)] by (intro exI conjI)
    then show ?thesis using v(1) known_step [OF k st] by simp
  qed
qed

lemma session_run:
  assumes "steps (timed_server_step ow e D J) s0 es s" and "started_server (ts_server s0)" and "session_view i s = Some v"
  obtains v0 gs where "timed_fresh v0" and "steps (timed_step True e D) v0 gs v" and "events_done gs = timed_session_events i es"
  using session_history [OF assms(1,2), of i] assms(3) by auto

lemma session_shows:
  assumes "session_view i s = Some v"
  obtains c where "srv_conns (ts_server s) i = Some c" and "connection_of v = view c"
    and "\<And>t. seconds_of t (connection_of v) = seconds_of t c"
    and "clock v = ts_clock s" and "timer_of v = ts_timers s i"
proof -
  obtain c where c: "srv_conns (ts_server s) i = Some c"
    and v: "v = \<lparr>clock = ts_clock s, timer_of = ts_timers s i, connection_of = view c\<rparr>"
    using assms by (auto simp: session_view_def)
  have "seconds_of t (connection_of v) = seconds_of t c" for t by (cases t) (simp_all add: v)
  with c show thesis by (intro that [of c]) (simp_all add: v)
qed

text \<open>C18: No session is timed out early: in every run of the server in time, between a step of a session
  that sets the deadline of one of its timers and any moment at which a wait on that timer becomes
  due, whatever the server and its other sessions do meanwhile, at least the seconds the session is
  configured with have passed; the writer's timer becomes due only while a packet of the session is
  queued. This holds for constructors with and without owners, and for sessions used before they
  were inserted.\<close>

theorem no_session_is_timed_out_early:
  assumes "started_server (ts_server s0)" and "steps (timed_server_step ow e D J) s0 es s1"
    and "srv_conns (ts_server s1) i = Some c1" and "timed_server_step ow e D J s1 (TS_do cfgs (SE_conn i ev)) s2"
    and "srv_conns (ts_server s2) i = Some c2" and "Eff_expires t x \<in> set (new_effects c1 c2)"
    and "steps (timed_server_step ow e D J) s2 fs s3" and "timed_server_step ow e D J s3 (TS_expire i t) s4"
  shows "\<exists>c3. srv_conns (ts_server s3) i = Some c3 \<and> ts_clock s2 + seconds_of t c3 \<le> ts_clock s3 \<and>
    seconds_of t c3 = seconds_of t c1 \<and> (t = Write_timer \<longrightarrow> queue c3 \<noteq> [])"
proof -
  obtain v1 where v1: "session_view i s1 = Some v1" using assms(3) by (simp add: session_view_def)
  obtain v0 gs where v0: "timed_fresh v0" "steps (timed_step True e D) v0 gs v1"
    by (rule session_run [OF assms(2,1) v1])
  have "follows e D i s1 v1" using session_history [OF assms(2,1), of i] v1 by (simp add: follows_def)
  then obtain v2 where v2: "steps (timed_step True e D) v1 [T_do ev] v2" "follows e D i s2 v2"
    using moving.sim_step [OF _ assms(4)] by fastforce
  then obtain v3 hs where v3: "steps (timed_step True e D) v2 hs v3" "follows e D i s3 v3"
    using moving.sim_steps [OF assms(7)] by blast
  obtain v4 where v4: "timed_step True e D v3 (T_expire t) v4"
    using moving.sim_step [OF v3(2) assms(8)] by (fastforce elim: steps_ConsE)
  have st: "timed_step True e D v1 (T_do ev) v2" using v2(1) by (fastforce elim: steps_ConsE simp: steps_Nil_iff)
  have view: "session_view i s2 = Some v2" "session_view i s3 = Some v3" using v2(2) v3(2) by (simp_all add: follows_def)
  obtain c3 where c3: "srv_conns (ts_server s3) i = Some c3" "seconds_of t (connection_of v3) = seconds_of t c3"
    "connection_of v3 = view c3" "clock v3 = ts_clock s3"
    by (rule session_shows [OF view(2)]) blast
  have c: "connection_of v1 = view c1" "seconds_of t (view c1) = seconds_of t c1"
    "connection_of v2 = view c2" "clock v2 = ts_clock s2"
    using session_shows [OF v1] session_shows [OF view(1)] assms(3,5) by (metis option.inject)+
  have run: "steps (timed_step True e D) v0 (gs @ [T_do ev] @ hs) v3"
    using steps_append [OF steps_append [OF v3(1) v2(1)] v0(2)] by simp
  have i0: "timed_inv [] v0" using v0(1) by (rule timed.inv_start)
  have "seconds_of t (connection_of v1) = seconds_of t (connection_of v0)"
    "seconds_of t (connection_of v3) = seconds_of t (connection_of v0)"
    using seconds_run [OF v0(2) i0] seconds_run [OF run i0] by blast+
  moreover have "Eff_expires t x \<in> set (new_effects (connection_of v1) (connection_of v2))"
    using assms(6) by (simp add: c(1,3) new_effects_def)
  note timeout_not_premature [OF v0 st this v3(1) v4]
  ultimately show ?thesis using c c3 by auto
qed

text \<open>A length is received, the reader waits for the rest, and after ten seconds its timer is due.\<close>

lemma demo_deadline_run:
  obtains v1 v2 where
    "timed_step False Little demo_archive (start_timed 0 demo_connection) (T_do (Ev_read_length None (be_bytes 4 10))) v1"
    and "Eff_expires Read_timer (After 10) \<in> set (new_effects demo_connection (connection_of v1))"
    and "timed_step False Little demo_archive v1 (T_do (Ev_wait Read_timer (Some Operation_aborted))) v2"
    and "clock v2 = 0" and "wait (timer_of v2 Read_timer) = Armed" and "deadline (timer_of v2 Read_timer) = Some 10"
proof -
  let ?s0 = "start_timed 0 demo_connection" and ?step = "timed_step False Little demo_archive"
    and ?ev = "Ev_read_length None (be_bytes 4 10)"
  have open0: "sock_open (connection_of ?s0)" "Op_read_length \<in># pending (connection_of ?s0)"
    "wait (timer_of ?s0 Read_timer) = Cancelled" "seconds_of Read_timer (connection_of ?s0) = 10"
    using demo_facts(2,3) by (simp_all add: start_timed_def start_timer_def demo_connection_def fresh_connection_def)
  obtain s2 where 1: "?step ?s0 (T_do ?ev) s2" and s2: "sock_open (connection_of s2)" "clock s2 = 0"
    "Eff_expires Read_timer (timeout Read_timer (connection_of s2)) \<in>
      set (new_effects (connection_of ?s0) (connection_of s2))"
    "deadline (timer_of s2 Read_timer) = Some 10" "wait (timer_of s2 Read_timer) = Cancelled"
    and i2: "timed_inv [T_do ?ev] s2"
    by (rule timed_length_step [OF timed.inv_start [OF demo_timed_fresh] open0(1,2), of 10 ?ev False Little demo_archive])
      (use open0 in \<open>simp_all add: start_timed_def\<close>)
  have 2: "?step s2 (T_do (Ev_wait Read_timer (Some Operation_aborted))) (rearmed Read_timer s2)"
    using i2 s2(1,5) by (intro rewait_step) (auto simp: timed_inv_def dest: conn_inv_facts)
  have "seconds_of Read_timer (connection_of s2) = seconds_of Read_timer (connection_of ?s0)"
    using seconds_run [OF steps_single [where step = ?step, OF 1] timed.inv_start [OF demo_timed_fresh]] by blast
  then have "timeout Read_timer (connection_of s2) = After 10" using open0(4) by (simp add: timeout_seconds)
  then show thesis using that [OF 1 _ 2] s2 by (simp add: start_timed_def)
qed

theorem no_session_is_timed_out_early_witness:
  "\<exists>s2 s3 s4 fs. timed_server_step True Little demo_archive demo_json (demo_ts 2)
       (TS_do demo_configs (SE_conn 0 (Ev_read_length None (be_bytes 4 10)))) s2 \<and>
     steps (timed_server_step True Little demo_archive demo_json) s2 fs s3 \<and>
     timed_server_step True Little demo_archive demo_json s3 (TS_expire 0 Read_timer) s4 \<and>
     ts_clock s3 = 10 \<and> (\<exists>c. srv_conns (ts_server s3) 0 = Some c \<and> ts_clock s2 + seconds_of Read_timer c \<le> 10)"
proof -
  let ?step = "timed_server_step True Little demo_archive demo_json"
  obtain v1 v2 where v: "timed_step False Little demo_archive (start_timed 0 demo_connection)
        (T_do (Ev_read_length None (be_bytes 4 10))) v1"
    "Eff_expires Read_timer (After 10) \<in> set (new_effects demo_connection (connection_of v1))"
    "timed_step False Little demo_archive v1 (T_do (Ev_wait Read_timer (Some Operation_aborted))) v2"
    "clock v2 = 0" "wait (timer_of v2 Read_timer) = Armed" "deadline (timer_of v2 Read_timer) = Some 10"
    by (rule demo_deadline_run)
  obtain s2 where 2: "?step (demo_ts 2) (TS_do demo_configs (SE_conn 0 (Ev_read_length None (be_bytes 4 10)))) s2"
    "served 0 s2 v1" "ts_clock s2 = ts_clock (demo_ts 2)"
    by (rule session_act [OF demo_ts_run(2) v(1)])
  obtain r where r: "?step s2 (TS_do demo_configs (SE_conn 0 (Ev_wait Read_timer (Some Operation_aborted)))) r"
    "served 0 r v2" "ts_clock r = ts_clock s2"
    by (rule session_act [OF 2(2) v(3)])
  let ?s3 = "r\<lparr>ts_clock := ts_clock r + 10\<rparr>"
  have 3: "?step r (TS_pass 10) ?s3" by (simp add: ts_pass)
  have run: "steps ?step s2 [TS_do demo_configs (SE_conn 0 (Ev_wait Read_timer (Some Operation_aborted))), TS_pass 10] ?s3"
    by (rule steps_Cons [where step = ?step, OF r(1) steps_single [where step = ?step, OF 3]])
  have clock: "ts_clock ?s3 = 10" using 2(3) r(3) by (simp add: demo_ts_def)
  have timer: "wait (ts_timers ?s3 0 Read_timer) = Armed" "deadline (ts_timers ?s3 0 Read_timer) = Some 10"
    and view: "session_view 0 ?s3 \<noteq> None"
    using r(2) v(5,6) by (auto simp: served_def session_view_def)
  have "?step ?s3 (TS_expire 0 Read_timer)
      (?s3\<lparr>ts_timers := (ts_timers ?s3)(0 := (ts_timers ?s3 0)(Read_timer := (ts_timers ?s3 0 Read_timer)\<lparr>wait := Due\<rparr>))\<rparr>)"
    using view timer clock by (intro ts_expire) simp_all
  then obtain s4 where 4: "?step ?s3 (TS_expire 0 Read_timer) s4" ..
  have c1: "srv_conns (ts_server (demo_ts 2)) 0 = Some demo_connection"
    and c2: "srv_conns (ts_server s2) 0 = Some (connection_of v1)"
    using demo_ts_run(2) 2(2) by (simp_all add: served_def start_timed_def)
  have s0: "started_server (ts_server (demo_ts 0))" by (simp add: demo_ts_def demo_server_started)
  from no_session_is_timed_out_early [OF s0 prompt_server_timed [OF demo_ts_run(1)] c1 2(1) c2 v(2) run 4]
  have "\<exists>c. srv_conns (ts_server ?s3) 0 = Some c \<and> ts_clock s2 + seconds_of Read_timer c \<le> 10"
    using clock by auto
  then show ?thesis using 2(1) run 4 clock by blast
qed

end
