(* ===== verification/Service.thy ===== *)
theory Service
  imports Server_History Channel
begin

section \<open>The server as a service\<close>

text \<open>
  The specification of the whole server, without sockets, timers, sets of sessions or counters: a
  list of channels that only grows, up to a limit fixed at the start. A client connects, which opens
  a channel, or is refused because there have been as many channels as the limit; every channel
  goes its own way; at some moment the service takes no more clients. The server in time, with
  reloads of the configuration, simulates it.
\<close>

record service =
  sv_open :: bool
  sv_limit :: nat
  sv_channels :: "channel list"

datatype service_event =
    V_connect
  | V_refuse
  | V_session nat channel_event
  | V_close

inductive service_step :: "service \<Rightarrow> service_event \<Rightarrow> service \<Rightarrow> bool" where
  connect: "sv_open sv \<Longrightarrow> length (sv_channels sv) < sv_limit sv \<Longrightarrow>
    service_step sv V_connect (sv\<lparr>sv_channels := sv_channels sv @ [channel_new]\<rparr>)"
| refuse: "sv_open sv \<Longrightarrow> length (sv_channels sv) = sv_limit sv \<Longrightarrow> service_step sv V_refuse sv"
| session: "i < length (sv_channels sv) \<Longrightarrow> channel_step (sv_channels sv ! i) x ch \<Longrightarrow>
    service_step sv (V_session i x) (sv\<lparr>sv_channels := (sv_channels sv)[i := ch]\<rparr>)"
| close: "service_step sv V_close (sv\<lparr>sv_open := False\<rparr>)"


lemma session_steps:
  assumes "steps channel_step ch xs ch'" and "i < length (sv_channels sv)" and "sv_channels sv ! i = ch"
  shows "steps service_step sv (map (V_session i) xs) (sv\<lparr>sv_channels := (sv_channels sv)[i := ch']\<rparr>)"
  using assms
proof (induction rule: steps.induct)
  case (steps_nil ch)
  then have "sv\<lparr>sv_channels := (sv_channels sv)[i := ch]\<rparr> = sv" by auto
  then show ?case using steps.steps_nil [of service_step sv] by simp
next
  case (steps_snoc ch xs ch1 x ch2)
  let ?sv = "sv\<lparr>sv_channels := (sv_channels sv)[i := ch1]\<rparr>"
  have "service_step ?sv (V_session i x) (?sv\<lparr>sv_channels := (sv_channels ?sv)[i := ch2]\<rparr>)"
    using steps_snoc.hyps(2) steps_snoc.prems(1) by (intro service_step.session) simp_all
  then show ?case using steps.steps_snoc [OF steps_snoc.IH [OF steps_snoc.prems]] by simp
qed

subsection \<open>The simulation\<close>



definition provides :: "endian \<Rightarrow> archive_reader \<Rightarrow> timed_server \<Rightarrow> service \<Rightarrow> bool" where
  "provides e D s sv \<longleftrightarrow>
     known e D s \<and> (\<exists>m es. count_inv m es (ts_server s)) \<and>
     sv_open sv = srv_open (ts_server s) \<and> sv_limit sv = unat (max_sessions (ts_server s)) \<and>
     length (sv_channels sv) = srv_next (ts_server s) \<and>
     (\<forall>i v. session_view i s = Some v \<longrightarrow> implements True e D (connection_of v) (sv_channels sv ! i))"

text \<open>What an event of the server is for the service.\<close>

definition service_label :: "timed_server \<Rightarrow> 'o timed_server_event \<Rightarrow> timed_server \<Rightarrow> service_event list" where
  "service_label s x s' =
     (case x of
        TS_do cfgs (SE_accept None peer) \<Rightarrow>
          if \<not> srv_open (ts_server s) then []
          else if srv_next (ts_server s') = srv_next (ts_server s) then [V_refuse] else [V_connect]
      | TS_do cfgs (SE_conn i ev) \<Rightarrow>
          (case (session_view i s, session_view i s') of
             (Some v, Some v') \<Rightarrow> map (V_session i) (channel_label (connection_of v) ev (connection_of v'))
           | _ \<Rightarrow> [])
      | TS_do cfgs SE_stop \<Rightarrow> [V_close]
      | _ \<Rightarrow> [])"

fun acts_on :: "nat \<Rightarrow> 'o timed_server_event \<Rightarrow> event option" where
  "acts_on i (TS_do cfgs (SE_conn j ev)) = (if j = i then Some ev else None)"
| "acts_on i _ = None"

lemma view_connection:
  assumes "known e D s" and "timed_server_step ow e D J s x s'" and "session_view i s = Some v" and "session_view i s' = Some v'"
  shows "case acts_on i x of Some ev \<Rightarrow> held_step True e D (connection_of v) ev (connection_of v')
    | None \<Rightarrow> connection_of v' = connection_of v"
proof -
  have run: "steps (timed_step True e D) v (session_share i x) v'"
    using session_moves [OF assms(1-3)] assms(4) by auto
  show ?thesis
  proof (cases "acts_on i x")
    case (Some ev)
    then obtain cfgs where "x = TS_do cfgs (SE_conn i ev)" by (cases "(i, x)" rule: acts_on.cases) (auto split: if_splits)
    then have "timed_step True e D v (T_do ev) v'" using run by (auto elim!: steps_ConsE simp: steps_Nil_iff)
    then show ?thesis using Some by (auto elim!: timed_doE)
  next
    case None
    then have "event_done y = []" if "y \<in> set (session_share i x)" for y
      using that by (cases "(i, x)" rule: session_share.cases) (auto split: if_splits)
    then have "events_done (session_share i x) = []" by (simp add: events_done_def)
    then show ?thesis using timed_is_run [OF run] None by (simp add: steps_Nil_iff)
  qed
qed

lemma view_iff: "session_view i s = None \<longleftrightarrow> srv_conns (ts_server s) i = None"
  by (simp add: session_view_def)

lemma count_inv_domain:
  "count_inv m es (ts_server s) \<Longrightarrow> session_view i s \<noteq> None \<longleftrightarrow> i < srv_next (ts_server s)"
  by (auto simp: count_inv_def session_view_def)

lemma count_step:
  "count_inv m es (ts_server s) \<Longrightarrow> timed_server_step ow e D J s x s' \<Longrightarrow> \<exists>es'. count_inv m es' (ts_server s')"
  by (erule timed_server_step.cases) (fastforce dest: count_inv_step)+

text \<open>To keep the simulation, it is enough to keep the numbers and each session on its channel.\<close>

lemma provides_keep:
  assumes "provides e D s sv" and "timed_server_step ow e D J s x s'"
    and "sv_open sv' = srv_open (ts_server s')" and "sv_limit sv' = sv_limit sv"
    and "length (sv_channels sv') = srv_next (ts_server s')"
    and "\<And>i v. session_view i s' = Some v \<Longrightarrow> i < srv_next (ts_server s') \<Longrightarrow>
      implements True e D (connection_of v) (sv_channels sv' ! i)"
  shows "provides e D s' sv'"
proof -
  obtain m es es' where c: "count_inv m es (ts_server s)" "count_inv m es' (ts_server s')"
    using assms(1) count_step [OF _ assms(2)] unfolding provides_def by blast
  then have "max_sessions (ts_server s') = max_sessions (ts_server s)" by (simp add: count_inv_def)
  moreover have "i < srv_next (ts_server s')" if "session_view i s' = Some v" for i v
    using count_inv_domain [OF c(2), of i] that by simp
  ultimately show ?thesis
    using assms(1,3-6) known_step [OF _ assms(2)] c(2) by (auto simp: provides_def)
qed

lemma provides_view:
  assumes "provides e D s sv" and "timed_server_step ow e D J s x s'" and "session_view i s' = Some v'"
    and "acts_on i x = None"
  shows "implements True e D (connection_of v') (if i < srv_next (ts_server s) then sv_channels sv ! i else channel_new)"
proof -
  obtain m es where c: "count_inv m es (ts_server s)" and k: "known e D s" using assms(1) by (auto simp: provides_def)
  show ?thesis
  proof (cases "session_view i s")
    case None
    then have "timed_fresh v'" "\<not> i < srv_next (ts_server s)"
      using session_new [OF assms(2) None assms(3)] count_inv_domain [OF c, of i] by simp_all
    then show ?thesis by (auto simp: timed_fresh_def start_timed_def intro: implements_new)
  next
    case (Some v)
    then have "i < srv_next (ts_server s)" using count_inv_domain [OF c, of i] by simp
    then show ?thesis using view_connection [OF k assms(2) Some assms(3)] assms(1,4) Some
      by (simp add: provides_def)
  qed
qed

lemma provides_same:
  assumes "provides e D s sv" and "timed_server_step ow e D J s x s'"
    and "sv_open sv' = srv_open (ts_server s')" and "sv_limit sv' = sv_limit sv" and "sv_channels sv' = sv_channels sv"
    and "srv_next (ts_server s') = srv_next (ts_server s)" and "\<And>i. acts_on i x = None"
  shows "provides e D s' sv'"
proof (rule provides_keep [OF assms(1,2)])
  fix i v assume "session_view i s' = Some v" "i < srv_next (ts_server s')"
  then show "implements True e D (connection_of v) (sv_channels sv' ! i)"
    using provides_view [OF assms(1,2), of i v] assms(5-7) by simp
qed (use assms in \<open>simp_all add: provides_def\<close>)

lemma provides_session:
  assumes pv: "provides e D s sv" and st: "timed_server_step ow e D J s x s'" and x: "x = TS_do cfgs (SE_conn i ev)"
    and v: "session_view i s = Some v" "session_view i s' = Some v'"
    and srv: "srv_open (ts_server s') = srv_open (ts_server s)" "srv_next (ts_server s') = srv_next (ts_server s)"
  shows "\<exists>sv'. steps service_step sv (service_label s x s') sv' \<and> provides e D s' sv'"
proof -
  obtain m es where c: "count_inv m es (ts_server s)" and k: "known e D s" using pv by (auto simp: provides_def)
  have i: "i < length (sv_channels sv)" using count_inv_domain [OF c, of i] v pv by (simp add: provides_def)
  have "held_step True e D (connection_of v) ev (connection_of v')"
    using view_connection [OF k st v] by (simp add: x)
  then obtain ch where ch: "steps channel_step (sv_channels sv ! i) (channel_label (connection_of v) ev (connection_of v')) ch"
    "implements True e D (connection_of v') ch"
    using implements_step pv v(1) unfolding provides_def by blast
  let ?sv = "sv\<lparr>sv_channels := (sv_channels sv)[i := ch]\<rparr>"
  have "implements True e D (connection_of w) (sv_channels ?sv ! j)" if "session_view j s' = Some w" "j < srv_next (ts_server s')" for j w
    using provides_view [OF pv st that(1)] that ch(2) v(2) i srv by (cases "j = i") (auto simp: x)
  then have "provides e D s' ?sv" using pv srv by (intro provides_keep [OF pv st]) (simp_all add: provides_def)
  moreover have "steps service_step sv (service_label s x s') ?sv"
    using session_steps [OF ch(1) i refl] v by (simp add: service_label_def x)
  ultimately show ?thesis by blast
qed

lemma provides_connect:
  assumes pv: "provides e D s sv" and st: "timed_server_step ow e D J s x s'" and x: "x = TS_do cfgs (SE_accept None peer)"
    and srv: "srv_open (ts_server s)" "active_connections (ts_server s) < max_sessions (ts_server s)"
      "srv_open (ts_server s') = srv_open (ts_server s)" "srv_next (ts_server s') = srv_next (ts_server s) + 1"
  shows "\<exists>sv'. steps service_step sv (service_label s x s') sv' \<and> provides e D s' sv'"
proof -
  let ?sv = "sv\<lparr>sv_channels := sv_channels sv @ [channel_new]\<rparr>"
  have "length (sv_channels sv) < sv_limit sv" "sv_open sv"
    using srv(1,2) pv by (auto simp: provides_def count_inv_def word_less_nat_alt)
  then have "service_step sv V_connect ?sv" by (intro service_step.connect)
  moreover have "implements True e D (connection_of w) (sv_channels ?sv ! j)"
    if "session_view j s' = Some w" "j < srv_next (ts_server s')" for j w
    using provides_view [OF pv st that(1)] that pv srv by (auto simp: x provides_def nth_append)
  then have "provides e D s' ?sv" using pv srv by (intro provides_keep [OF pv st]) (simp_all add: provides_def)
  ultimately show ?thesis using srv steps_single [where step = service_step]
    by (intro exI [of _ ?sv]) (simp add: service_label_def x)
qed

lemma provides_step:
  assumes pv: "provides e D s sv" and st: "timed_server_step ow e D J s x s'"
  shows "\<exists>sv'. steps service_step sv (service_label s x s') sv' \<and> provides e D s' sv'"
proof -
  have f: "sv_open sv = srv_open (ts_server s)" using pv by (simp add: provides_def)
  have quiet: ?thesis
    if "service_label s x s' = []" "srv_open (ts_server s') = srv_open (ts_server s)"
      "srv_next (ts_server s') = srv_next (ts_server s)" "\<And>i. acts_on i x = None"
    using provides_same [OF pv st, of sv] that f steps_nil [of service_step sv] by auto
  from st show ?thesis
  proof cases
    case (ts_do cfgs ev s1)
    from ts_do(3) show ?thesis
    proof (cases rule: server_stepE)
      case (closed err peer)
      then show ?thesis by (cases err; intro quiet) (simp_all add: service_label_def ts_do(1,2))
    next
      case (failed msg peer)
      then show ?thesis by (intro quiet) (simp_all add: service_label_def ts_do(1,2))
    next
      case (rejected msg peer)
      have "service_step sv V_refuse sv"
        using rejected(2,4) pv by (intro service_step.refuse) (auto simp: provides_def count_inv_def word_le_nat_alt)
      moreover have "provides e D s' sv"
        using rejected f by (intro provides_same [OF pv st]) (simp_all add: ts_do(1,2))
      ultimately show ?thesis using rejected steps_single [where step = service_step]
        by (intro exI [of _ sv]) (simp add: service_label_def ts_do(1,2))
    next
      case (accepted c msg peer)
      then show ?thesis by (intro provides_connect [OF pv st]) (auto simp: ts_do(1,2))
    next
      case (inserted i)
      then show ?thesis by (intro quiet) (simp_all add: service_label_def ts_do(1,2))
    next
      case (conn i cev c c')
      then obtain v v' where "session_view i s = Some v" "session_view i s' = Some v'"
        by (auto simp: session_view_def ts_do(2))
      then show ?thesis using conn by (intro provides_session [OF pv st]) (auto simp: ts_do(1,2))
    next
      case stop
      have "provides e D s' (sv\<lparr>sv_open := False\<rparr>)"
        using stop by (intro provides_same [OF pv st]) (simp_all add: ts_do(1,2) server_stop_def)
      then show ?thesis using stop steps_single [where step = service_step, OF service_step.close]
        by (auto simp: service_label_def ts_do(1))
    qed
  qed (intro quiet; simp add: service_label_def)+
qed

interpretation service: simulation "timed_server_step ow e D J" service_step "provides e D" service_label for ow e D J
  by unfold_locales (rule provides_step)



end
