(* ===== verification/Logger_Props.thy ===== *)
theory Logger_Props
  imports Logger Json_Instance
begin

section \<open>Properties of the logger\<close>

text \<open>
  The level names, the name of the daily file, and what a sequence of log calls leaves on the
  disk: an abstract append-only log of whole days, one file a day, that the operations refine.
\<close>

text \<open>The level names are exact: a configured text is accepted as a level exactly when it is the
  name the logger prints for that level, case included, and any other text throws.\<close>

lemma level_names:
  "(getLevel s = Inr l \<longleftrightarrow> s = levelToString l) \<and>
     (getLevel s = Inl (Invalid_argument ''Invalid log level'') \<longleftrightarrow> (\<forall>k. s \<noteq> levelToString k))"
proof -
  have "getLevel (levelToString k) = Inr k" for k
    by (cases k) (simp_all add: getLevel_def)
  moreover have "getLevel s = Inr k \<Longrightarrow> s = levelToString k" for k
    by (auto simp: getLevel_def split: if_splits)
  moreover have "(\<exists>k. getLevel s = Inr k) \<or> getLevel s = Inl (Invalid_argument ''Invalid log level'')"
    by (simp add: getLevel_def)
  ultimately show ?thesis by (metis sum.distinct(1))
qed

lemma getDate_eq_iff:
  "getDate t = getDate t' \<longleftrightarrow> tm_year t = tm_year t' \<and> tm_mon t = tm_mon t' \<and> tm_mday t = tm_mday t'"
  by (simp add: getDate_def split_at_char [OF nat_to_string_no_char nat_to_string_no_char])

lemma getDate_nonempty [simp]: "getDate t \<noteq> []"
  by (simp add: getDate_def)

subsection \<open>The daily file\<close>

text \<open>What one entry adds to a file.\<close>

type_synonym log_entry = "tm \<times> log_level \<times> string \<times> string"

fun entry_text :: "log_entry \<Rightarrow> string" where
  "entry_text (t, lv, m, msg) = log_line t lv m msg"

fun entry_file :: "logger \<Rightarrow> log_entry \<Rightarrow> string" where
  "entry_file l (t, lv, m, msg) = log_filename l (getDate t)"

fun entry_passes :: "logger \<Rightarrow> log_entry \<Rightarrow> bool" where
  "entry_passes l (t, lv, m, msg) \<longleftrightarrow> lg_configLevel l \<le> lv"

text \<open>A call of \<open>log\<close>, with what can be opened at its moment, and a sequence of calls.\<close>

type_synonym log_call = "(string \<Rightarrow> bool) \<times> log_entry"

fun log_one :: "log_call \<Rightarrow> logger \<times> log_disk \<Rightarrow> logger \<times> log_disk" where
  "log_one (can_open, t, lv, m, msg) st = log can_open t lv m msg st"

definition log_all :: "log_call list \<Rightarrow> logger \<times> log_disk \<Rightarrow> logger \<times> log_disk" where
  "log_all xs st = fold log_one xs st"

lemma openFileIfNeeded_fields [simp]:
  "lg_configLevel (openFileIfNeeded co t l) = lg_configLevel l"
  "log_filename (openFileIfNeeded co t l) = log_filename l"
  "lg_currentDate (openFileIfNeeded co t l) = getDate t"
  by (simp_all add: openFileIfNeeded_def log_filename_def Let_def fun_eq_iff)

text \<open>
  The specification: the calls that pass the level fall into blocks, the longest stretches of calls of
  one date; a block belongs to the file of its date, and whether it gets there is decided at its
  first call, which opens the file.
\<close>

fun call_date :: "log_call \<Rightarrow> string" where
  "call_date (can_open, t, lv, m, msg) = getDate t"

function day_blocks :: "log_call list \<Rightarrow> log_call list list" where
  "day_blocks [] = []"
| "day_blocks (x # xs) =
     (x # takeWhile (\<lambda>y. call_date y = call_date x) xs) # day_blocks (dropWhile (\<lambda>y. call_date y = call_date x) xs)"
  by pat_completeness auto

termination
  by (relation "measure length") (auto simp: less_Suc_eq_le length_dropWhile_le)

definition block_text :: "log_call list \<Rightarrow> string" where
  "block_text b = concat (map (\<lambda>x. entry_text (snd x)) b)"

fun block_in :: "logger \<Rightarrow> string \<Rightarrow> log_call list \<Rightarrow> bool" where
  "block_in l f [] \<longleftrightarrow> False"
| "block_in l f (x # _) \<longleftrightarrow> entry_file l (snd x) = f \<and> fst x f"

definition blocks_of_file :: "logger \<Rightarrow> string \<Rightarrow> log_call list \<Rightarrow> string" where
  "blocks_of_file l f xs = concat (map block_text (filter (block_in l f) (day_blocks xs)))"

lemma blocks_of_file_Cons:
  "blocks_of_file l f (x # xs) =
     (if entry_file l (snd x) = f \<and> fst x f
      then entry_text (snd x) @ block_text (takeWhile (\<lambda>y. call_date y = call_date x) xs) else []) @
     blocks_of_file l f (dropWhile (\<lambda>y. call_date y = call_date x) xs)"
  by (simp add: blocks_of_file_def block_text_def)

lemma same_logger:
  assumes "log_filename l' = log_filename l" and "lg_configLevel l' = lg_configLevel l"
  shows "blocks_of_file l' f xs = blocks_of_file l f xs" and "entry_passes l' x = entry_passes l x"
proof -
  have "entry_file l' y = entry_file l y" for y using assms by (cases y) simp
  then have "block_in l' f b = block_in l f b" for b by (cases b) simp_all
  then have "block_in l' f = block_in l f" by (rule ext)
  then show "blocks_of_file l' f xs = blocks_of_file l f xs" by (simp add: blocks_of_file_def)
  show "entry_passes l' x = entry_passes l x" using assms by (cases x) simp
qed

text \<open>From any state of the logger: the calls of its date go to the file it has open, if any.\<close>

lemma log_all_blocks:
  "snd (log_all xs (l, disk)) f =
     (let ps = filter (\<lambda>x. entry_passes l (snd x)) xs in
      disk f @ (if lg_file l = Some f then block_text (takeWhile (\<lambda>y. call_date y = lg_currentDate l) ps) else []) @
      blocks_of_file l f (dropWhile (\<lambda>y. call_date y = lg_currentDate l) ps))"
proof (induction xs arbitrary: l disk)
  case Nil
  show ?case by (simp add: log_all_def blocks_of_file_def block_text_def)
next
  case (Cons x xs)
  obtain co t lv m msg where x: "x = (co, t, lv, m, msg)" by (cases x)
  let ?l = "openFileIfNeeded co t l"
  show ?case
  proof (cases "lg_configLevel l \<le> lv")
    case False
    then have "log_one x (l, disk) = (l, disk)" by (simp add: x log_def not_le)
    then show ?thesis using Cons.IH [of l disk] False by (simp add: log_all_def x)
  next
    case pass: True
    obtain disk' where one: "log_one x (l, disk) = (?l, disk')"
        and line: "disk' f = disk f @ (if lg_file ?l = Some f then log_line t lv m msg else [])"
      using leD [OF pass] by (cases "lg_file ?l") (simp_all add: x log_def)
    have level: "filter (\<lambda>y. entry_passes ?l (snd y)) xs = filter (\<lambda>y. entry_passes l (snd y)) xs"
      by (simp add: same_logger(2) [of ?l l])
    let ?ps = "filter (\<lambda>y. entry_passes l (snd y)) xs"
    have IH: "snd (log_all xs (?l, disk')) f =
        disk' f @ (if lg_file ?l = Some f then block_text (takeWhile (\<lambda>y. call_date y = getDate t) ?ps) else []) @
        blocks_of_file l f (dropWhile (\<lambda>y. call_date y = getDate t) ?ps)"
      using Cons.IH [of ?l disk'] by (simp add: level same_logger(1) [of ?l l] Let_def)
    have all: "log_all (x # xs) (l, disk) = log_all xs (?l, disk')" by (simp add: log_all_def one)
    have ps: "entry_passes l (snd x)" and line_of: "entry_text (snd x) = log_line t lv m msg"
        and opener: "fst x = co" and date: "call_date x = getDate t" and file_of: "entry_file l (snd x) = log_filename l (getDate t)"
      using pass by (simp_all add: x)
    show ?thesis
    proof (cases "getDate t = lg_currentDate l")
      case True
      then have "?l = l" by (simp add: openFileIfNeeded_def)
      then have "lg_file ?l = lg_file l" by simp
      then show ?thesis using IH line True by (simp add: all ps line_of date block_text_def Let_def)
    next
      case False
      then have "lg_file ?l = (if co (log_filename l (getDate t)) then Some (log_filename l (getDate t)) else None)"
        by (simp add: openFileIfNeeded_def Let_def log_filename_def)
      then show ?thesis using IH line False
        by (auto simp: all ps line_of opener date file_of blocks_of_file_Cons Let_def block_text_def split: if_splits)
    qed
  qed
qed

text \<open>C29: The logger refines an append-only log of whole days: whatever the order of the calls, however the
  clock moves between days, and whatever can be opened at the moment of each call, every file ends
  up with its old content followed by the lines of its blocks, in the order they were logged. A block
  is a longest stretch of calls of one date among those at or above the configured level; it goes
  to the file of its date if this could be opened at the first call of the block, and is lost as a
  whole if not, even when the file could be opened later that day.\<close>

theorem log_refines_daily_append:
  assumes "lg_file l = None" and "lg_currentDate l = []"
  shows "snd (log_all xs (l, disk)) =
    (\<lambda>f. disk f @ blocks_of_file l f (filter (\<lambda>x. entry_passes l (snd x)) xs))"
proof
  fix f
  let ?ps = "filter (\<lambda>x. entry_passes l (snd x)) xs"
  have "call_date y \<noteq> []" for y by (cases y) simp
  then have "dropWhile (\<lambda>y. call_date y = []) ?ps = ?ps" by (cases ?ps) simp_all
  then show "snd (log_all xs (l, disk)) f = disk f @ blocks_of_file l f ?ps"
    using log_all_blocks [of xs l disk f] assms by simp
qed

definition demo_logger :: logger where
  "demo_logger = \<lparr>lg_file = None, lg_currentDate = [], lg_configLevel = Warning, lg_configFile = ''s.log'',
     lg_configIntervalSeconds = 3, lg_pathinfo = \<lparr>lp_path = [], lp_name = ''s'', lp_extention = ''.log''\<rparr>\<rparr>"

definition demo_tm :: tm where
  "demo_tm = \<lparr>tm_year = 125, tm_mon = 0, tm_mday = 9, tm_hour = 8, tm_min = 5, tm_sec = 30\<rparr>"

text \<open>The first call of the day finds that the file cannot be opened: the second is lost, too.\<close>

theorem log_refines_daily_append_witness:
  "snd (log_all [((\<lambda>_. True), demo_tm, Info, ''M'', ''a''), ((\<lambda>_. False), demo_tm, Error, ''M'', ''b''),
       ((\<lambda>_. True), demo_tm, Error, ''M'', ''c''), ((\<lambda>_. True), demo_tm\<lparr>tm_mday := 10\<rparr>, Error, ''M'', ''d'')]
     (demo_logger, \<lambda>_. [])) =
   (\<lambda>f. if f = ''s-2025-1-10.log'' then ''2025-1-10 08:05:30 [Error] [M] d'' @ [CHR 0x0A] else [])"
proof -
  let ?t = "demo_tm\<lparr>tm_mday := 10\<rparr>"
  have dates: "getDate demo_tm = ''2025-1-9''" "getDate ?t = ''2025-1-10''"
      "getDateTime ?t = ''2025-1-10 08:05:30''"
    by (simp_all add: demo_tm_def getDate_def getDateTime_def two_digits_def nat_to_string.simps char_of_def bit_0)
  have levels: "\<not> lg_configLevel demo_logger \<le> Info" "lg_configLevel demo_logger \<le> Error"
    by (simp_all add: demo_logger_def less_eq_log_level_def)
  have names: "log_filename demo_logger ''2025-1-9'' = ''s-2025-1-9.log''"
      "log_filename demo_logger ''2025-1-10'' = ''s-2025-1-10.log''"
    by (simp_all add: demo_logger_def log_filename_def)
  show ?thesis
    by (subst log_refines_daily_append)
      (simp_all add: dates levels names blocks_of_file_Cons blocks_of_file_def [where xs = "[]"]
        block_text_def log_line_def fun_eq_iff, simp_all add: demo_logger_def)
qed

text \<open>When what can be opened does not change, a file gets every line of its date.\<close>

lemma log_of_stable_files:
  assumes "lg_file l = None" and "lg_currentDate l = []" and "list_all (\<lambda>x. fst x = can_open) xs"
  shows "snd (log_all xs (l, disk)) f =
    disk f @ (if can_open f then block_text (filter (\<lambda>x. entry_passes l (snd x) \<and> entry_file l (snd x) = f) xs) else [])"
proof -
  have same: "entry_file l (snd y) = entry_file l (snd x) \<longleftrightarrow> call_date y = call_date x" for x y
    by (cases x; cases y) (simp add: log_filename_def)
  have "list_all (\<lambda>x. fst x = can_open) ps \<Longrightarrow>
      blocks_of_file l f ps = (if can_open f then block_text (filter (\<lambda>x. entry_file l (snd x) = f) ps) else [])" for ps
  proof (induction ps rule: day_blocks.induct)
    case (2 x ps)
    let ?P = "\<lambda>y. call_date y = call_date x"
    have "list_all (\<lambda>x. fst x = can_open) (takeWhile ?P ps @ dropWhile ?P ps)" using "2.prems" by simp
    then have IH: "blocks_of_file l f (dropWhile ?P ps) =
        (if can_open f then block_text (filter (\<lambda>x. entry_file l (snd x) = f) (dropWhile ?P ps)) else [])"
      using "2.IH" by (simp only: list_all_append)
    have "filter (\<lambda>y. entry_file l (snd y) = f) (takeWhile ?P ps) =
        (if entry_file l (snd x) = f then takeWhile ?P ps else [])"
    proof -
      have "entry_file l (snd y) = entry_file l (snd x)" if "y \<in> set (takeWhile ?P ps)" for y
        using set_takeWhileD [OF that] same [of x y] by simp
      then show ?thesis by (simp add: filter_id_conv filter_empty_conv)
    qed
    then have "block_text (filter (\<lambda>y. entry_file l (snd y) = f) ps) =
        (if entry_file l (snd x) = f then block_text (takeWhile ?P ps) else []) @
        block_text (filter (\<lambda>y. entry_file l (snd y) = f) (dropWhile ?P ps))"
      using filter_append [of "\<lambda>y. entry_file l (snd y) = f" "takeWhile ?P ps" "dropWhile ?P ps"]
      by (simp add: block_text_def)
    then show ?case using IH "2.prems" by (simp add: blocks_of_file_Cons) (simp add: block_text_def)
  qed (simp add: blocks_of_file_def block_text_def)
  moreover have "list_all (\<lambda>x. fst x = can_open) (filter (\<lambda>x. entry_passes l (snd x)) xs)"
    using assms(3) by (auto simp: list_all_iff)
  moreover have "snd (log_all xs (l, disk)) f = disk f @ blocks_of_file l f (filter (\<lambda>x. entry_passes l (snd x)) xs)"
    using log_all_blocks [of xs l disk f] assms(1,2)
    by (cases "filter (\<lambda>x. entry_passes l (snd x)) xs") (auto split: if_splits)
  ultimately show ?thesis by (simp add: conj_commute)
qed

text \<open>The name of the daily file: a configured path is accepted exactly when its extension is
  \<^verbatim>\<open>.log\<close> or \<^verbatim>\<open>.txt\<close> and its directory can be made; for an accepted path whose directory part is
  written with single separators, the file of a date is the configured path with a hyphen and the
  date put before the extension, and the files of two dates are the same only if year, month and
  day are.\<close>

lemma daily_file_name:
  assumes "path_directory (lg_configFile l) = [] \<or>
    path_directory (lg_configFile l) = parent_path (lg_configFile l) @ ''/'' \<and> parent_path (lg_configFile l) \<noteq> []"
  shows "(fst (getFileFolders mkdirs l) \<longleftrightarrow> path_extension (lg_configFile l) \<in> {''.log'', ''.txt''} \<and>
      (parent_path (lg_configFile l) = [] \<or> mkdirs (parent_path (lg_configFile l)))) \<and>
    (fst (getFileFolders mkdirs l) \<longrightarrow>
      (\<exists>base ext. lg_configFile l = base @ ext \<and> ext \<in> {''.log'', ''.txt''} \<and>
        (\<forall>d. log_filename (snd (getFileFolders mkdirs l)) d = base @ ''-'' @ d @ ext))) \<and>
    (log_filename l (getDate t) = log_filename l (getDate t') \<longleftrightarrow>
      tm_year t = tm_year t' \<and> tm_mon t = tm_mon t' \<and> tm_mday t = tm_mday t')"
proof (intro conjI impI)
  let ?p = "lg_configFile l"
  show ok: "fst (getFileFolders mkdirs l) \<longleftrightarrow> path_extension ?p \<in> {''.log'', ''.txt''} \<and>
      (parent_path ?p = [] \<or> mkdirs (parent_path ?p))"
    by (auto simp: getFileFolders_def Let_def)
  assume a: "fst (getFileFolders mkdirs l)"
  have "path_directory ?p = [] \<Longrightarrow> parent_path ?p = []" by (simp add: parent_path_def)
  then have "path_directory ?p = (if parent_path ?p \<noteq> [] then parent_path ?p @ ''/'' else [])"
    using assms by auto
  moreover have "?p = path_directory ?p @ path_stem ?p @ path_extension ?p"
    by (simp add: stem_extension path_split)
  moreover have "lg_pathinfo (snd (getFileFolders mkdirs l)) =
      \<lparr>lp_path = (if parent_path ?p \<noteq> [] then parent_path ?p @ ''/'' else []),
       lp_name = path_stem ?p, lp_extention = path_extension ?p\<rparr>"
    using a by (auto simp: getFileFolders_def Let_def split: if_splits)
  ultimately show "\<exists>base ext. ?p = base @ ext \<and> ext \<in> {''.log'', ''.txt''} \<and>
      (\<forall>d. log_filename (snd (getFileFolders mkdirs l)) d = base @ ''-'' @ d @ ext)"
    using a [unfolded ok]
    by (intro exI [of _ "path_directory ?p @ path_stem ?p"] exI [of _ "path_extension ?p"])
      (simp add: log_filename_def)
next
  show "log_filename l (getDate t) = log_filename l (getDate t') \<longleftrightarrow>
      tm_year t = tm_year t' \<and> tm_mon t = tm_mon t' \<and> tm_mday t = tm_mday t'"
    by (simp add: log_filename_def getDate_eq_iff)
qed

lemma daily_file_name_demo:
  "\<exists>base ext. ''logs/server.log'' = base @ ext \<and> ext \<in> {''.log'', ''.txt''} \<and>
     (\<forall>d. log_filename (snd (getFileFolders (\<lambda>_. True) (demo_logger\<lparr>lg_configFile := ''logs/server.log''\<rparr>))) d =
        base @ ''-'' @ d @ ext)"
proof -
  let ?l = "demo_logger\<lparr>lg_configFile := ''logs/server.log''\<rparr>"
  have ext: "path_extension ''logs/server.log'' = ''.log''" and dir: "path_directory ''logs/server.log'' = ''logs/''"
    and parent: "parent_path ''logs/server.log'' = ''logs''"
    by (simp_all add: path_extension_def path_filename_def path_directory_def parent_path_def)
  have "fst (getFileFolders (\<lambda>_. True) ?l)" by (simp add: getFileFolders_def Let_def ext)
  then show ?thesis using daily_file_name [of ?l "\<lambda>_. True"] by (simp add: dir parent)
qed

end
