(* ===== verification/Logger_Threads.thy ===== *)
theory Logger_Threads
  imports Logger_Props Machine
begin

section \<open>Calls of the logger on several threads\<close>

text \<open>
  The handlers that log run on all worker threads, and \<open>Logger::log\<close> takes no lock. Here each call is
  a sequence of steps on the shared members: the test of the level, the test of the date, the four
  effects of \<open>openFileIfNeeded\<close>, and one step for each \<^verbatim>\<open><<\<close>. A number stands for a call; a move is
  a call and the time at which it makes its next step. This grants the code that each step is
  atomic, which C++ does not; what goes wrong here goes wrong all the more in the program.

  A stream that is open already fails to open again and from then on writes nothing, until an
  \<^verbatim>\<open>open\<close> succeeds: \<open>lw_failed\<close> is its fail bit. \<open>lw_written\<close> is no state of the program: it
  records which call put which piece into a file.
\<close>

type_synonym log_job = "log_level \<times> string \<times> string"

datatype log_pc =
    L_level
  | L_date
  | L_set string
  | L_close
  | L_open
  | L_stamp
  | L_write "string list"
  | L_done

record log_world =
  lw_logger :: logger
  lw_failed :: bool
  lw_disk :: log_disk
  lw_pc :: "nat \<Rightarrow> log_pc"
  lw_written :: "(nat \<times> string) list"

definition log_pieces :: "tm \<Rightarrow> log_job \<Rightarrow> string list" where
  "log_pieces now = (\<lambda>(level, modl, message).
     [getDateTime now, '' ['', levelToString level, ''] '', ''['', modl, ''] '', message, [CHR 0x0A]])"

definition stream_open :: "(string \<Rightarrow> bool) \<Rightarrow> string \<Rightarrow> log_world \<Rightarrow> log_world" where
  "stream_open can_open filename w =
     (if lg_file (lw_logger w) \<noteq> None then w\<lparr>lw_failed := True\<rparr>
      else if can_open filename
      then w\<lparr>lw_failed := False, lw_logger := (lw_logger w)\<lparr>lg_file := Some filename\<rparr>\<rparr>
      else w\<lparr>lw_failed := True\<rparr>)"

definition stream_put :: "nat \<Rightarrow> string \<Rightarrow> log_world \<Rightarrow> log_world" where
  "stream_put i piece w =
     (case lg_file (lw_logger w) of
        None \<Rightarrow> w
      | Some f \<Rightarrow> if lw_failed w then w
          else w\<lparr>lw_disk := (lw_disk w)(f := lw_disk w f @ piece), lw_written := lw_written w @ [(i, piece)]\<rparr>)"

fun log_move :: "(string \<Rightarrow> bool) \<Rightarrow> log_job \<Rightarrow> nat \<Rightarrow> tm \<Rightarrow> log_pc \<Rightarrow> log_world \<Rightarrow> log_pc \<times> log_world" where
  "log_move co job i now L_level w =
     (if fst job < lg_configLevel (lw_logger w) then L_done else L_date, w)"
| "log_move co job i now L_date w =
     (let today = getDate now in if today \<noteq> lg_currentDate (lw_logger w) then L_set today else L_stamp, w)"
| "log_move co job i now (L_set today) w = (L_close, w\<lparr>lw_logger := (lw_logger w)\<lparr>lg_currentDate := today\<rparr>\<rparr>)"
| "log_move co job i now L_close w = (L_open, w\<lparr>lw_logger := (lw_logger w)\<lparr>lg_file := None\<rparr>\<rparr>)"
| "log_move co job i now L_open w =
     (L_stamp, stream_open co (log_filename (lw_logger w) (lg_currentDate (lw_logger w))) w)"
| "log_move co job i now L_stamp w = (L_write (log_pieces now job), w)"
| "log_move co job i now (L_write (p # ps)) w = (L_write ps, stream_put i p w)"
| "log_move co job i now (L_write []) w = (L_done, w)"
| "log_move co job i now L_done w = (L_done, w)"

definition log_thread_step :: "(string \<Rightarrow> bool) \<Rightarrow> (nat \<Rightarrow> log_job) \<Rightarrow> nat \<times> tm \<Rightarrow> log_world \<Rightarrow> log_world" where
  "log_thread_step co jobs = (\<lambda>(i, now) w.
     let (pc, w') = log_move co (jobs i) i now (lw_pc w i) w in w'\<lparr>lw_pc := (lw_pc w)(i := pc)\<rparr>)"

lemma log_pieces_line: "concat (log_pieces now (lv, m, msg)) = log_line now lv m msg"
  by (simp add: log_pieces_def log_line_def)

subsection \<open>One call at a time\<close>

text \<open>A call that runs to its end without another call in between does what \<open>log\<close> does.\<close>

lemma stream_put_none: "lg_file (lw_logger w) = None \<Longrightarrow> stream_put i p w = w"
  by (simp add: stream_put_def)

lemma funpow_add_apply: "(f ^^ (m + n)) x = (f ^^ n) ((f ^^ m) x)"
  by (simp add: funpow_add funpow_swap1 add.commute [of m n])

lemma put_run:
  assumes "lw_pc w i = L_write ps" and "n = Suc (length ps)"
  shows "(log_thread_step co jobs (i, now) ^^ n) w =
    (case lg_file (lw_logger w) of
       Some f \<Rightarrow> if lw_failed w then w
         else w\<lparr>lw_disk := (lw_disk w)(f := lw_disk w f @ concat ps), lw_written := lw_written w @ map (Pair i) ps\<rparr>
     | None \<Rightarrow> w)\<lparr>lw_pc := (lw_pc w)(i := L_done)\<rparr>"
  using assms
proof (induction ps arbitrary: w n)
  case Nil
  then show ?case by (auto simp: log_thread_step_def fun_upd_def split: option.splits)
next
  case (Cons p ps)
  let ?f = "log_thread_step co jobs (i, now)"
  have w: "?f w = (stream_put i p w)\<lparr>lw_pc := (lw_pc w)(i := L_write ps)\<rparr>"
    using Cons.prems by (simp add: log_thread_step_def)
  have "(?f ^^ n) w = (?f ^^ Suc (length ps)) (?f w)" using Cons.prems by (simp add: funpow_swap1)
  then show ?case using Cons.IH [of "?f w", OF _ refl]
    by (cases "lg_file (lw_logger w)"; cases "lw_failed w") (simp_all add: w stream_put_def fun_upd_def cong: if_cong)
qed

lemma ended_stays:
  "lw_pc w i = L_done \<Longrightarrow> (log_thread_step co jobs (i, now) ^^ n) w = w"
  by (induction n) (simp_all add: log_thread_step_def fun_upd_idem)

definition finish :: "nat \<Rightarrow> tm \<Rightarrow> log_job \<Rightarrow> log_world \<Rightarrow> log_world" where
  "finish i now job w =
     (case lg_file (lw_logger w) of
        Some f \<Rightarrow> if lw_failed w then w
          else w\<lparr>lw_disk := (lw_disk w)(f := lw_disk w f @ concat (log_pieces now job)),
                 lw_written := lw_written w @ map (Pair i) (log_pieces now job)\<rparr>
      | None \<Rightarrow> w)\<lparr>lw_pc := (lw_pc w)(i := L_done)\<rparr>"

lemma stamp_run:
  assumes "lw_pc w i = L_stamp"
  shows "(log_thread_step co jobs (i, now) ^^ 11) w = finish i now (jobs i) w"
proof -
  let ?w = "log_thread_step co jobs (i, now) w"
  have "lw_pc ?w i = L_write (log_pieces now (jobs i))" using assms by (simp add: log_thread_step_def)
  moreover have "length (log_pieces now (jobs i)) = 9" by (simp add: log_pieces_def split: prod.splits)
  ultimately have "(log_thread_step co jobs (i, now) ^^ 10) ?w = finish i now (jobs i) ?w"
    using put_run [of ?w i "log_pieces now (jobs i)" 10 co jobs now] by (simp add: finish_def)
  moreover have "(log_thread_step co jobs (i, now) ^^ 11) w = (log_thread_step co jobs (i, now) ^^ 10) ?w"
    using funpow_add_apply [of 1 10 "log_thread_step co jobs (i, now)" w] by simp
  moreover have "finish i now (jobs i) ?w = finish i now (jobs i) w"
    using assms by (simp add: finish_def log_thread_step_def split: option.splits)
  ultimately show ?thesis by simp
qed

lemma log_alone:
  assumes "lw_pc w i = L_level" and "lw_failed w \<longrightarrow> lg_file (lw_logger w) = None" and "jobs i = (lv, m, msg)"
  shows "let w' = (log_thread_step co jobs (i, now) ^^ 16) w in
    lw_pc w' i = L_done \<and> (lw_logger w', lw_disk w') = log co now lv m msg (lw_logger w, lw_disk w) \<and>
    (lw_failed w' \<longrightarrow> lg_file (lw_logger w') = None)"
proof -
  let ?f = "log_thread_step co jobs (i, now)"
  consider (low) "lv < lg_configLevel (lw_logger w)"
    | (same) "\<not> lv < lg_configLevel (lw_logger w)" "getDate now = lg_currentDate (lw_logger w)"
    | (fresh) "\<not> lv < lg_configLevel (lw_logger w)" "getDate now \<noteq> lg_currentDate (lw_logger w)" by blast
  then show ?thesis
  proof cases
    case low
    have "(?f ^^ 16) w = (?f ^^ 15) (?f w)" using funpow_add_apply [of 1 15 ?f w] by simp
    also have "\<dots> = ?f w" using low assms by (intro ended_stays) (simp add: log_thread_step_def)
    finally show ?thesis using low assms by (simp add: log_thread_step_def log_def)
  next
    case same
    let ?w = "?f (?f w)"
    have w: "lw_pc ?w i = L_stamp" "lw_logger ?w = lw_logger w" "lw_disk ?w = lw_disk w" "lw_failed ?w = lw_failed w"
      using same assms by (simp_all add: log_thread_step_def Let_def)
    have "(?f ^^ 16) w = (?f ^^ 3) ((?f ^^ 11) ?w)"
      using funpow_add_apply [of 2 14 ?f w] funpow_add_apply [of 11 3 ?f ?w] by (simp add: eval_nat_numeral)
    also have "\<dots> = finish i now (jobs i) ?w"
      unfolding stamp_run [OF w(1)] by (intro ended_stays) (simp add: finish_def)
    finally show ?thesis using same assms w
      by (auto simp: log_def openFileIfNeeded_def finish_def Let_def log_pieces_line split: option.splits)
  next
    case fresh
    let ?w = "?f (?f (?f (?f (?f w))))"
    have w: "lw_pc ?w i = L_stamp" "lw_logger ?w = openFileIfNeeded co now (lw_logger w)" "lw_disk ?w = lw_disk w"
      "lw_failed ?w \<longleftrightarrow> lg_file (lw_logger ?w) = None"
      using fresh assms by (simp_all add: log_thread_step_def Let_def stream_open_def openFileIfNeeded_def log_filename_def)
    have "(?f ^^ 16) w = (?f ^^ 11) ?w"
      using funpow_add_apply [of 5 11 ?f w] by (simp add: eval_nat_numeral)
    also have "\<dots> = finish i now (jobs i) ?w" by (rule stamp_run [OF w(1)])
    finally show ?thesis using fresh assms w
      by (auto simp: log_def finish_def Let_def log_pieces_line split: option.splits)
  qed
qed

subsection \<open>Calls within one day\<close>

definition log_day_step ::
  "(string \<Rightarrow> bool) \<Rightarrow> (nat \<Rightarrow> log_job) \<Rightarrow> string \<Rightarrow> log_world \<Rightarrow> nat \<times> tm \<Rightarrow> log_world \<Rightarrow> bool"
where
  "log_day_step co jobs d w x w' \<longleftrightarrow> getDate (snd x) = d \<and> w' = log_thread_step co jobs x w"

lemma day_run:
  "list_all (\<lambda>x. getDate (snd x) = d) xs \<Longrightarrow>
     steps (log_day_step co jobs d) w xs (fold (log_thread_step co jobs) xs w)"
proof (induction xs rule: rev_induct)
  case (snoc x xs)
  then have "steps (log_day_step co jobs d) w xs (fold (log_thread_step co jobs) xs w)" by simp
  moreover have "log_day_step co jobs d v x (log_thread_step co jobs x v)" for v
    using snoc.prems by (simp add: log_day_step_def)
  ultimately show ?case using steps_snoc [where step = "log_day_step co jobs d"] by fastforce
qed (simp add: steps_nil)

definition written_of :: "nat \<Rightarrow> log_world \<Rightarrow> string list" where
  "written_of i w = map snd (filter (\<lambda>x. fst x = i) (lw_written w))"

text \<open>What a call has written, given where it is and the times of its steps.\<close>

fun call_at :: "log_job \<Rightarrow> log_level \<Rightarrow> tm set \<Rightarrow> log_pc \<Rightarrow> string list \<Rightarrow> bool" where
  "call_at job lim ts L_level ws \<longleftrightarrow> ws = []"
| "call_at job lim ts L_date ws \<longleftrightarrow> ws = [] \<and> lim \<le> fst job"
| "call_at job lim ts L_stamp ws \<longleftrightarrow> ws = [] \<and> lim \<le> fst job"
| "call_at job lim ts (L_write ps) ws \<longleftrightarrow> lim \<le> fst job \<and> (\<exists>now\<in>ts. ws @ ps = log_pieces now job)"
| "call_at job lim ts L_done ws \<longleftrightarrow> (if lim \<le> fst job then \<exists>now\<in>ts. ws = log_pieces now job else ws = [])"
| "call_at job lim ts _ ws \<longleftrightarrow> False"

lemma call_at_mono: "call_at job lim ts pc ws \<Longrightarrow> ts \<subseteq> ts' \<Longrightarrow> call_at job lim ts' pc ws"
  by (cases pc; cases "lim \<le> fst job") (simp_all, blast+)

definition step_times :: "nat \<Rightarrow> (nat \<times> tm) list \<Rightarrow> tm set" where
  "step_times i xs = {now. (i, now) \<in> set xs}"

definition writing_inv ::
  "(nat \<Rightarrow> log_job) \<Rightarrow> string \<Rightarrow> string \<Rightarrow> log_level \<Rightarrow> log_disk \<Rightarrow> (nat \<times> tm) list \<Rightarrow> log_world \<Rightarrow> bool"
where
  "writing_inv jobs d f lim disk xs w \<longleftrightarrow>
     lg_currentDate (lw_logger w) = d \<and> lg_file (lw_logger w) = Some f \<and> \<not> lw_failed w \<and>
     lg_configLevel (lw_logger w) = lim \<and>
     lw_disk w = disk(f := disk f @ concat (map snd (lw_written w))) \<and>
     (\<forall>i. call_at (jobs i) lim (step_times i xs) (lw_pc w i) (written_of i w))"

lemma writing_inv_step:
  assumes "writing_inv jobs d f lim disk xs w" and "log_day_step co jobs d w x w'"
  shows "writing_inv jobs d f lim disk (xs @ [x]) w'"
proof -
  obtain i now where x: "x = (i, now)" by (cases x)
  have now: "getDate now = d" and w': "w' = log_thread_step co jobs (i, now) w"
    using assms(2) by (simp_all add: log_day_step_def x)
  have shared: "lg_currentDate (lw_logger w) = d" "lg_file (lw_logger w) = Some f" "\<not> lw_failed w"
    "lg_configLevel (lw_logger w) = lim" "lw_disk w = disk(f := disk f @ concat (map snd (lw_written w)))"
    and me: "call_at (jobs i) lim (step_times i xs) (lw_pc w i) (written_of i w)"
    using assms(1) by (simp_all add: writing_inv_def)
  have sub: "step_times j xs \<subseteq> step_times j (xs @ [x])" "now \<in> step_times i (xs @ [x])" for j
    by (auto simp: step_times_def x)
  have others: "call_at (jobs j) lim (step_times j (xs @ [x])) (lw_pc w j) (written_of j w)" for j
    using assms(1) call_at_mono [OF _ sub(1)] by (simp add: writing_inv_def)
  have "lw_pc w' j = lw_pc w j" "written_of j w' = written_of j w" if "j \<noteq> i" for j
    using that by (cases "(co, jobs i, i, now, lw_pc w i, w)" rule: log_move.cases;
        simp add: w' log_thread_step_def written_of_def stream_put_def stream_open_def split: option.splits)+
  moreover have "call_at (jobs i) lim (step_times i (xs @ [x])) (lw_pc w' i) (written_of i w') \<and>
      lw_logger w' = lw_logger w \<and> lw_failed w' = lw_failed w \<and>
      lw_disk w' = disk(f := disk f @ concat (map snd (lw_written w')))"
    using me shared now others [of i] sub(2)
    by (cases "(co, jobs i, i, now, lw_pc w i, w)" rule: log_move.cases)
      (auto simp: w' log_thread_step_def written_of_def stream_put_def Let_def not_less)
  ultimately show ?thesis using shared others unfolding writing_inv_def by metis
qed

interpretation writing: safe_machine "log_day_step co jobs d"
  "\<lambda>w. writing_inv jobs d f lim disk [] w" "writing_inv jobs d f lim disk" for co jobs d f lim disk
  by unfold_locales (auto intro: writing_inv_step)

text \<open>Within a day, in this model: once the file of the day is open and the stream has not failed, calls on
  any number of threads, however their steps interleave, append to it exactly the pieces they
  wrote, in the order they wrote them; each finished call at or above the level has written all
  the pieces of its line, in order, with the time of one of its own steps, and a call below the
  level nothing. So even if each \<^verbatim>\<open><<\<close> on the shared stream were atomic, which C++ does not
  promise, only pieces would be written at once, not lines.\<close>

lemma pieces_within_a_day:
  assumes "\<forall>i. lw_pc w i = L_level" and "lw_written w = []" and "lg_file (lw_logger w) = Some f"
    and "\<not> lw_failed w" and "steps (log_day_step co jobs (lg_currentDate (lw_logger w))) w xs w'"
  shows "lw_disk w' = (lw_disk w)(f := lw_disk w f @ concat (map snd (lw_written w'))) \<and>
    (\<forall>i. lw_pc w' i = L_done \<longrightarrow>
      (if lg_configLevel (lw_logger w) \<le> fst (jobs i)
       then \<exists>now. (i, now) \<in> set xs \<and> written_of i w' = log_pieces now (jobs i)
       else written_of i w' = []))"
proof -
  have "writing_inv jobs (lg_currentDate (lw_logger w)) f (lg_configLevel (lw_logger w)) (lw_disk w) [] w"
    using assms(1-4) by (simp add: writing_inv_def written_of_def)
  from writing.inv_steps [OF this assms(5)]
  have inv: "lw_disk w' = (lw_disk w)(f := lw_disk w f @ concat (map snd (lw_written w')))"
    "\<And>i. call_at (jobs i) (lg_configLevel (lw_logger w)) (step_times i xs) (lw_pc w' i) (written_of i w')"
    by (simp_all add: writing_inv_def)
  have "if lg_configLevel (lw_logger w) \<le> fst (jobs i)
      then \<exists>now. (i, now) \<in> set xs \<and> written_of i w' = log_pieces now (jobs i) else written_of i w' = []"
    if "lw_pc w' i = L_done" for i
    using inv(2) [of i] that by (auto simp: step_times_def split: if_splits)
  with inv(1) show ?thesis by blast
qed

text \<open>Two calls whose pieces alternate.\<close>

definition demo_jobs :: "nat \<Rightarrow> log_job" where
  "demo_jobs i = (Error, ''m'', ''x'')"

definition demo_world :: log_world where
  "demo_world = \<lparr>lw_logger = demo_logger\<lparr>lg_currentDate := getDate demo_tm, lg_file := Some ''f''\<rparr>,
     lw_failed = False, lw_disk = (\<lambda>_. []), lw_pc = (\<lambda>_. L_level), lw_written = []\<rparr>"

lemma demo_mix:
  assumes "w = fold (log_thread_step co demo_jobs) (concat (replicate 13 [(0, demo_tm), (1, demo_tm)])) demo_world"
  shows "lw_pc w 0 = L_done \<and> lw_pc w 1 = L_done \<and>
    lw_written w = concat (map (\<lambda>p. [(0, p), (1, p)]) (log_pieces demo_tm (Error, ''m'', ''x'')))"
  unfolding assms
  by (simp add: eval_nat_numeral demo_world_def log_thread_step_def demo_jobs_def demo_logger_def stream_put_def
      log_pieces_def less_log_level_def)

lemma pieces_within_a_day_demo:
  "\<exists>w xs. steps (log_day_step (\<lambda>_. True) demo_jobs (getDate demo_tm)) demo_world xs w \<and>
     lw_disk w ''f'' = concat (map (\<lambda>p. p @ p) (log_pieces demo_tm (Error, ''m'', ''x''))) \<and>
     written_of 0 w = log_pieces demo_tm (Error, ''m'', ''x'')"
proof -
  let ?xs = "concat (replicate 13 [(0, demo_tm), (1, demo_tm)])" let ?w = "fold (log_thread_step (\<lambda>_. True) demo_jobs) ?xs demo_world"
  have w0: "\<forall>i. lw_pc demo_world i = L_level" "lw_written demo_world = []" "lg_file (lw_logger demo_world) = Some ''f''"
    "\<not> lw_failed demo_world" "lg_currentDate (lw_logger demo_world) = getDate demo_tm"
    by (simp_all add: demo_world_def)
  have "list_all (\<lambda>x. getDate (snd x) = getDate demo_tm) ?xs" by (simp add: list_all_iff)
  then have run: "steps (log_day_step (\<lambda>_. True) demo_jobs (getDate demo_tm)) demo_world ?xs ?w" by (rule day_run)
  note m = demo_mix [OF refl, of "\<lambda>_. True"]
  have "lw_disk ?w = (lw_disk demo_world)(''f'' := lw_disk demo_world ''f'' @ concat (map snd (lw_written ?w)))"
    and "\<exists>now. (0, now) \<in> set ?xs \<and> written_of 0 ?w = log_pieces now (demo_jobs 0)"
    using pieces_within_a_day [OF w0(1-4), unfolded w0(5), OF run] m
    by (auto simp: demo_world_def demo_logger_def demo_jobs_def less_eq_log_level_def)
  moreover have "concat (map snd (concat (map (\<lambda>p. [(0::nat, p), (1, p)]) ps))) = concat (map (\<lambda>p. p @ p) ps)" for ps
    by (induction ps) simp_all
  ultimately show ?thesis using run m
    by (intro exI [of _ ?w] exI [of _ ?xs]) (auto simp: demo_world_def demo_jobs_def)
qed

subsection \<open>Calls at a change of the date\<close>

text \<open>The stream has its fail bit set and nobody is about to open it: nothing is written any more.\<close>

fun opens :: "log_pc \<Rightarrow> bool" where
  "opens (L_set _) \<longleftrightarrow> True"
| "opens L_close \<longleftrightarrow> True"
| "opens L_open \<longleftrightarrow> True"
| "opens _ \<longleftrightarrow> False"

definition silenced :: "string \<Rightarrow> log_disk \<Rightarrow> log_world \<Rightarrow> bool" where
  "silenced d disk w \<longleftrightarrow> lw_failed w \<and> lg_currentDate (lw_logger w) = d \<and> lw_disk w = disk \<and>
     (\<forall>i. \<not> opens (lw_pc w i))"

lemma silenced_step:
  assumes "silenced d disk w" and "log_day_step co jobs d w x w'"
  shows "silenced d disk w'"
proof -
  obtain i now where x: "x = (i, now)" by (cases x)
  obtain pc where "lw_pc w i = pc" "\<not> opens pc" using assms(1) by (simp add: silenced_def)
  then show ?thesis using assms
    by (cases "(co, jobs i, i, now, pc, w)" rule: log_move.cases)
      (auto simp: silenced_def log_day_step_def x log_thread_step_def stream_put_def Let_def split: option.splits)
qed

interpretation silence: safe_machine "log_day_step co jobs d" "silenced d disk" "\<lambda>_. silenced d disk" for co jobs d disk
  by unfold_locales (auto intro: silenced_step)

text \<open>Two calls on the first entry of a day, step by step until both have opened the file.\<close>

definition race :: "tm \<Rightarrow> (nat \<times> tm) list" where
  "race now = concat (replicate 5 [(0, now), (1, now)])"

lemma race_result:
  assumes "\<forall>i. lw_pc w i = L_level" and "lg_configLevel (lw_logger w) \<le> fst (jobs 0)"
    and "lg_configLevel (lw_logger w) \<le> fst (jobs 1)" and "getDate now \<noteq> lg_currentDate (lw_logger w)"
    and "co (log_filename (lw_logger w) (getDate now))" and "w' = fold (log_thread_step co jobs) (race now) w"
  shows "lw_pc w' 0 = L_stamp" "lw_pc w' 1 = L_stamp" "silenced (getDate now) (lw_disk w) w'"
    "lg_file (lw_logger w') = Some (log_filename (lw_logger w) (getDate now))"
proof -
  have "race now = [(0, now), (1, now), (0, now), (1, now), (0, now), (1, now), (0, now), (1, now), (0, now), (1, now)]"
    by (simp add: race_def eval_nat_numeral)
  moreover have "\<not> fst (jobs 0) < lg_configLevel (lw_logger w)" "\<not> fst (jobs 1) < lg_configLevel (lw_logger w)"
    using assms(2,3) by simp_all
  ultimately show "lw_pc w' 0 = L_stamp" "lw_pc w' 1 = L_stamp" "silenced (getDate now) (lw_disk w) w'"
    "lg_file (lw_logger w') = Some (log_filename (lw_logger w) (getDate now))"
    using assms by (simp_all add: log_thread_step_def Let_def stream_open_def log_filename_def silenced_def)
qed

text \<open>C30: Two threads can silence the logger for a day: if two calls make the first entries of a day at the
  same time, both may close the old file before either opens the new one; the second \<^verbatim>\<open>open\<close>
  fails because the first succeeded, and sets the fail bit of the stream. Both calls return, neither
  entry is written, and nothing that any thread logs that day is.\<close>

theorem date_race_silences_the_logger:
  assumes "\<forall>i. lw_pc w i = L_level" and "lg_configLevel (lw_logger w) \<le> fst (jobs 0)"
    and "lg_configLevel (lw_logger w) \<le> fst (jobs 1)" and "getDate now \<noteq> lg_currentDate (lw_logger w)"
    and "co (log_filename (lw_logger w) (getDate now))"
  shows "\<exists>xs w'. steps (log_day_step co jobs (getDate now)) w xs w' \<and> (\<forall>x\<in>set xs. x = (0, now) \<or> x = (1, now)) \<and>
    lw_pc w' 0 = L_done \<and> lw_pc w' 1 = L_done \<and> lw_disk w' = lw_disk w \<and>
    (\<forall>ys w''. steps (log_day_step co jobs (getDate now)) w' ys w'' \<longrightarrow> lw_disk w'' = lw_disk w)"
proof -
  let ?xs = "race now @ replicate 11 (0, now) @ replicate 11 (1, now)" and ?run = "fold (log_thread_step co jobs)"
  let ?w1 = "?run (race now) w" let ?w2 = "finish 0 now (jobs 0) ?w1" let ?w3 = "finish 1 now (jobs 1) ?w2"
  note r = race_result [where w' = ?w1, OF assms refl]
  have pcs: "lw_pc (finish i now job v) j = (if j = i then L_done else lw_pc v j)" for i job v j
    by (simp add: finish_def split: option.splits)
  have "?run ?xs w = ?w3" using stamp_run [OF r(1)] stamp_run [of ?w2 1] r(2) by (simp add: pcs)
  moreover have "list_all (\<lambda>x. getDate (snd x) = getDate now) ?xs" by (simp add: list_all_iff race_def)
  ultimately have run: "steps (log_day_step co jobs (getDate now)) w ?xs ?w3" by (metis day_run)
  have "silenced (getDate now) (lw_disk w) ?w3"
    using r(3) by (simp add: silenced_def finish_def split: option.splits)
  then have "\<forall>ys w''. steps (log_day_step co jobs (getDate now)) ?w3 ys w'' \<longrightarrow> lw_disk w'' = lw_disk w"
    and "lw_disk ?w3 = lw_disk w"
    using silence.inv_steps [of "getDate now" "lw_disk w" ?w3 co jobs] by (auto simp: silenced_def)
  moreover have "\<forall>x\<in>set ?xs. x = (0, now) \<or> x = (1, now)" by (auto simp: race_def)
  ultimately show ?thesis using run pcs [of 1 "jobs 1" ?w2] pcs [of 0 "jobs 0" ?w1] pcs [of 1 "jobs 1" ?w2 0]
    by (intro exI [of _ ?xs] exI [of _ ?w3]) simp
qed

theorem date_race_silences_the_logger_witness:
  "\<exists>xs w'. steps (log_day_step (\<lambda>_. True) demo_jobs (getDate demo_tm))
       (demo_world\<lparr>lw_logger := demo_logger\<rparr>) xs w' \<and> lw_pc w' 0 = L_done \<and> lw_disk w' = (\<lambda>_. [])"
  using date_race_silences_the_logger [of "demo_world\<lparr>lw_logger := demo_logger\<rparr>" demo_jobs demo_tm "\<lambda>_. True"]
  by (force simp: demo_world_def demo_logger_def demo_jobs_def less_eq_log_level_def)

end
