(* ===== verification/Validation.thy ===== *)
theory Validation
  imports Strings
begin

section \<open>Validation of user input\<close>

text \<open>
  The class \<open>Validation\<close> of \<open>common/utils/validation.hpp\<close> and \<open>validation.cpp\<close>. Its patterns are
  regular expressions for \<^verbatim>\<open>std::regex_match\<close>, which matches the whole text, so that the anchors
  of the patterns say nothing more; matching is by derivatives.
\<close>

datatype rx =
    RNone
  | REmpty
  | RClass "(char \<times> char) list"
  | RSeq rx rx
  | RAlt rx rx
  | RStar rx

definition in_range :: "char \<Rightarrow> char \<times> char \<Rightarrow> bool" where
  "in_range c r \<longleftrightarrow> (of_char (fst r) :: nat) \<le> of_char c \<and> (of_char c :: nat) \<le> of_char (snd r)"

definition in_class :: "(char \<times> char) list \<Rightarrow> char \<Rightarrow> bool" where
  "in_class cs c \<longleftrightarrow> list_ex (in_range c) cs"

fun nullable :: "rx \<Rightarrow> bool" where
  "nullable RNone = False"
| "nullable REmpty = True"
| "nullable (RClass cs) = False"
| "nullable (RSeq r s) = (nullable r \<and> nullable s)"
| "nullable (RAlt r s) = (nullable r \<or> nullable s)"
| "nullable (RStar r) = True"

fun deriv :: "char \<Rightarrow> rx \<Rightarrow> rx" where
  "deriv c RNone = RNone"
| "deriv c REmpty = RNone"
| "deriv c (RClass cs) = (if in_class cs c then REmpty else RNone)"
| "deriv c (RSeq r s) =
     (if nullable r then RAlt (RSeq (deriv c r) s) (deriv c s) else RSeq (deriv c r) s)"
| "deriv c (RAlt r s) = RAlt (deriv c r) (deriv c s)"
| "deriv c (RStar r) = RSeq (deriv c r) (RStar r)"

definition regex_match :: "string \<Rightarrow> rx \<Rightarrow> bool" where
  "regex_match s r \<longleftrightarrow> nullable (fold deriv s r)"

definition RPlus :: "rx \<Rightarrow> rx" where
  "RPlus r = RSeq r (RStar r)"

definition RChar :: "char \<Rightarrow> rx" where
  "RChar c = RClass [(c, c)]"

subsection \<open>The patterns of the code\<close>

definition user_id_class :: "(char \<times> char) list" where
  "user_id_class = [(CHR ''a'', CHR ''z''), (CHR ''A'', CHR ''Z''), (CHR ''0'', CHR ''9''),
     (CHR ''_'', CHR ''_''), (CHR ''.'', CHR ''.''), (CHR ''-'', CHR ''-'')]"

definition isValidUserId :: "string \<Rightarrow> bool" where
  "isValidUserId user_id = regex_match user_id (RPlus (RClass user_id_class))"

definition isValidUserIdLength :: "string \<Rightarrow> bool" where
  "isValidUserIdLength user_id \<longleftrightarrow> length user_id < 4"

definition email_local_class :: "(char \<times> char) list" where
  "email_local_class = [(CHR ''a'', CHR ''z''), (CHR ''A'', CHR ''z''), (CHR ''0'', CHR ''9''),
     (CHR ''_'', CHR ''_''), (CHR ''.'', CHR ''.''), (CHR ''-'', CHR ''-'')]"

definition email_domain_class :: "(char \<times> char) list" where
  "email_domain_class = [(CHR ''a'', CHR ''z''), (CHR ''A'', CHR ''Z''), (CHR ''0'', CHR ''9''),
     (CHR ''_'', CHR ''_''), (CHR ''-'', CHR ''-'')]"

definition email_tld_class :: "(char \<times> char) list" where
  "email_tld_class = [(CHR ''a'', CHR ''z''), (CHR ''A'', CHR ''Z''), (CHR ''0'', CHR ''9'')]"

definition isValidEmail :: "string \<Rightarrow> bool" where
  "isValidEmail email =
     regex_match email
       (RSeq (RPlus (RClass email_local_class)) (RSeq (RChar (CHR ''@''))
       (RSeq (RPlus (RClass email_domain_class)) (RSeq (RChar (CHR ''.''))
       (RSeq (RClass email_tld_class) (RSeq (RClass email_tld_class)
         (RAlt REmpty (RClass email_tld_class))))))))"

definition isValidPasswordLength :: "string \<Rightarrow> bool" where
  "isValidPasswordLength password \<longleftrightarrow> length password < 6"

subsection \<open>Languages\<close>

text \<open>What a pattern means: the set of texts it matches.\<close>

inductive_set star_of :: "'a list set \<Rightarrow> 'a list set" for A :: "'a list set" where
  star_nil: "[] \<in> star_of A"
| star_app: "x \<in> A \<Longrightarrow> y \<in> star_of A \<Longrightarrow> x @ y \<in> star_of A"

definition conc :: "'a list set \<Rightarrow> 'a list set \<Rightarrow> 'a list set" where
  "conc A B = {x @ y | x y. x \<in> A \<and> y \<in> B}"

fun lang :: "rx \<Rightarrow> string set" where
  "lang RNone = {}"
| "lang REmpty = {[]}"
| "lang (RClass cs) = {[c] | c. in_class cs c}"
| "lang (RSeq r s) = conc (lang r) (lang s)"
| "lang (RAlt r s) = lang r \<union> lang s"
| "lang (RStar r) = star_of (lang r)"

lemma nullable_lang: "nullable r \<longleftrightarrow> [] \<in> lang r"
  by (induction r) (auto simp: conc_def intro: star_nil)

lemma conc_Cons:
  "c # s \<in> conc A B \<longleftrightarrow> (\<exists>x y. s = x @ y \<and> c # x \<in> A \<and> y \<in> B) \<or> ([] \<in> A \<and> c # s \<in> B)"
  unfolding conc_def by (auto simp: Cons_eq_append_conv)

lemma star_Cons: "c # s \<in> star_of A \<longleftrightarrow> (\<exists>x y. s = x @ y \<and> c # x \<in> A \<and> y \<in> star_of A)"
proof
  have "t \<in> star_of A \<Longrightarrow> t = c # s \<Longrightarrow> \<exists>x y. s = x @ y \<and> c # x \<in> A \<and> y \<in> star_of A" for t
    by (induction arbitrary: s rule: star_of.induct) (auto simp: append_eq_Cons_conv)
  then show "c # s \<in> star_of A \<Longrightarrow> \<exists>x y. s = x @ y \<and> c # x \<in> A \<and> y \<in> star_of A" by blast
  show "\<exists>x y. s = x @ y \<and> c # x \<in> A \<and> y \<in> star_of A \<Longrightarrow> c # s \<in> star_of A"
    using star_app [of "c # _" A] by fastforce
qed

lemma deriv_lang: "s \<in> lang (deriv c r) \<longleftrightarrow> c # s \<in> lang r"
proof (induction r arbitrary: s)
  case (RSeq r1 r2)
  then show ?case by (auto simp: conc_Cons nullable_lang) (auto simp: conc_def)
next
  case (RStar r)
  then show ?case by (simp add: star_Cons) (simp add: conc_def)
qed auto

text \<open>The matcher computes the language.\<close>

lemma regex_match_lang: "regex_match s r \<longleftrightarrow> s \<in> lang r"
proof -
  have "nullable (fold deriv s r) \<longleftrightarrow> s \<in> lang r"
    by (induction s arbitrary: r) (simp_all add: nullable_lang deriv_lang)
  then show ?thesis by (simp add: regex_match_def)
qed

lemma star_class: "s \<in> star_of {[c] | c. P c} \<longleftrightarrow> list_all P s"
proof
  show "s \<in> star_of {[c] | c. P c} \<Longrightarrow> list_all P s" by (induction rule: star_of.induct) auto
  show "list_all P s \<Longrightarrow> s \<in> star_of {[c] | c. P c}"
  proof (induction s)
    case (Cons c s)
    then show ?case using star_app [of "[c]" "{[c] | c. P c}" s] by auto
  qed (rule star_nil)
qed

lemma lang_RPlus_class: "s \<in> lang (RPlus (RClass cs)) \<longleftrightarrow> s \<noteq> [] \<and> list_all (in_class cs) s"
proof (cases s)
  case (Cons a t)
  have "s \<in> lang (RPlus (RClass cs)) \<longleftrightarrow>
      (\<exists>x y. t = x @ y \<and> (in_class cs a \<and> x = []) \<and> list_all (in_class cs) y)"
    using Cons by (simp add: RPlus_def conc_Cons star_class)
  then show ?thesis using Cons by simp
qed (simp add: RPlus_def conc_def)

end
