(* ===== verification/Auth_Service.thy ===== *)
theory Auth_Service
  imports Session Validation
begin

section \<open>Logging in\<close>

text \<open>
  \<open>AuthRepository\<close> (\<open>src/components/auth/auth_repository.cpp\<close>) and \<open>AuthService::login\<close>
  (\<open>auth_service.cpp\<close>). The database is the parameter \<open>db\<close>: what it answers to a call after the
  calls made before, or the exception it throws. A coroutine is a function from the calls made so
  far to all calls made and its result; \<^verbatim>\<open>co_await\<close> is its composition \<open>co_bind\<close>. An awaitable that is
  not awaited never runs.
\<close>

datatype db_call =
    DB_get_connection
  | DB_prepare string
  | DB_execute string "string list"

record db_result =
  dr_has_rows :: bool
  dr_last_insert_id :: nat

type_synonym database = "db_call list \<Rightarrow> db_call \<Rightarrow> db_result res"

type_synonym 'a coroutine = "db_call list \<Rightarrow> db_call list \<times> 'a res"

definition co_return :: "'a \<Rightarrow> 'a coroutine" where
  "co_return x = (\<lambda>calls. (calls, Inr x))"

definition co_bind :: "'a coroutine \<Rightarrow> ('a \<Rightarrow> 'b coroutine) \<Rightarrow> 'b coroutine" where
  "co_bind m f = (\<lambda>calls.
     case m calls of
       (calls', Inl x) \<Rightarrow> (calls', Inl x)
     | (calls', Inr a) \<Rightarrow> f a calls')"

definition query :: "database \<Rightarrow> db_call \<Rightarrow> db_result coroutine" where
  "query db q = (\<lambda>calls. (calls @ [q], db calls q))"

subsection \<open>The repository\<close>

definition select_sql :: string where
  "select_sql = ''SELECT * FROM users WHERE'' @
     '' (user_id=? AND password_hash=? AND is_active=1) LIMIT 1''"

definition insert_sql :: string where
  "insert_sql = ''INSERT INTO login_sessions '' @
     ''(session_id, user_id, created_at, expires_at, last_access_at, ip_address) VALUES '' @
     ''(?, ?, NOW(), DATE_ADD(NOW(), INTERVAL 7 DAY), NOW(), ?)''"

definition update_sql :: string where
  "update_sql = ''UPDDATE users set last_login_at=NOW() '' @
     ''WHERE user_id=? and is_active=1''"

definition selectUser :: "database \<Rightarrow> login_request \<Rightarrow> bool coroutine" where
  "selectUser db request =
     co_bind (query db (DB_prepare select_sql)) (\<lambda>_.
     co_bind (query db (DB_execute select_sql [lr_user_id request, lr_password request])) (\<lambda>result.
     co_return (dr_has_rows result)))"

definition insertUser :: "database \<Rightarrow> string \<Rightarrow> string \<Rightarrow> string \<Rightarrow> bool coroutine" where
  "insertUser db session_id user_id ip =
     co_bind (query db (DB_prepare insert_sql)) (\<lambda>_.
     co_bind (query db (DB_execute insert_sql [session_id, user_id, ip])) (\<lambda>result.
     co_return (dr_last_insert_id result > 0)))"

definition updateUser :: "database \<Rightarrow> login_request \<Rightarrow> unit coroutine" where
  "updateUser db request =
     co_bind (query db (DB_prepare update_sql)) (\<lambda>_.
     co_bind (query db (DB_execute update_sql [lr_user_id request])) (\<lambda>result.
     co_return ()))"

subsection \<open>The service\<close>

definition login :: "database \<Rightarrow> remote_answer \<Rightarrow> login_request \<Rightarrow> unit coroutine" where
  "login db remote request =
     (if isValidUserId (lr_user_id request) then co_return ()
      else if isValidUserIdLength (lr_user_id request) then co_return ()
      else if isValidPasswordLength (lr_password request) then co_return ()
      else
        co_bind (query db DB_get_connection) (\<lambda>conn.
        co_bind (selectUser db request) (\<lambda>finded.
        if finded
        then let ip = get_remote_address remote in
          co_bind (insertUser db ''session_id'' (lr_user_id request) ip) (\<lambda>inserted.
          if inserted then let unawaited = updateUser db request in co_return ()
          else co_return ())
        else co_return ())))"

end
