(* ===== verification/Auth_Props.thy ===== *)
theory Auth_Props
  imports Auth_Service "HOL-Library.Sublist"
begin

section \<open>Properties of validation and login\<close>

text \<open>
  What the patterns accept, written out without regular expressions, and what the login coroutine
  asks of the database.
\<close>

definition is_alnum :: "char \<Rightarrow> bool" where
  "is_alnum c \<longleftrightarrow> is_digit c \<or> (65 \<le> (of_char c :: nat) \<and> (of_char c :: nat) \<le> 90) \<or>
     (97 \<le> (of_char c :: nat) \<and> (of_char c :: nat) \<le> 122)"

lemma char_codes [simp]:
  "(of_char (CHR ''a'') :: nat) = 97" "(of_char (CHR ''z'') :: nat) = 122" "(of_char (CHR ''A'') :: nat) = 65"
  "(of_char (CHR ''Z'') :: nat) = 90" "(of_char (CHR ''0'') :: nat) = 48" "(of_char (CHR ''9'') :: nat) = 57"
  "(of_char (CHR ''_'') :: nat) = 95" "(of_char (CHR ''.'') :: nat) = 46" "(of_char (CHR ''-'') :: nat) = 45"
  by (simp_all add: of_char_def)

lemma char_by_code:
  "(of_char c :: nat) = 95 \<longleftrightarrow> c = CHR ''_''" "(of_char c :: nat) = 46 \<longleftrightarrow> c = CHR ''.''"
  "(of_char c :: nat) = 45 \<longleftrightarrow> c = CHR ''-''"
  using of_char_eq_iff [where ?'a = nat, of c] char_codes by metis+

lemma classes:
  "in_class user_id_class c \<longleftrightarrow> is_alnum c \<or> c \<in> set ''_.-''"
  "in_class email_local_class c \<longleftrightarrow> is_alnum c \<or> (91 \<le> (of_char c :: nat) \<and> (of_char c :: nat) \<le> 96) \<or> c \<in> set ''.-''"
  "in_class email_domain_class c \<longleftrightarrow> is_alnum c \<or> c \<in> set ''_-''"
  "in_class email_tld_class c \<longleftrightarrow> is_alnum c"
  by (auto simp: in_class_def user_id_class_def email_local_class_def email_domain_class_def email_tld_class_def
      in_range_def is_alnum_def is_digit_def char_by_code [symmetric])

lemma conc_class: "s \<in> conc {[c] |c. P c} B \<longleftrightarrow> (\<exists>a t. s = a # t \<and> P a \<and> t \<in> B)"
  by (auto simp: conc_def) (metis append_Cons append_Nil)

lemma conc_one: "s \<in> conc {[c]} B \<longleftrightarrow> (\<exists>t. s = c # t \<and> t \<in> B)"
  by (auto simp: conc_def)

lemma conc_iff: "s \<in> conc A B \<longleftrightarrow> (\<exists>x y. s = x @ y \<and> x \<in> A \<and> y \<in> B)"
  by (auto simp: conc_def)

lemma tld_lang:
  "s \<in> conc {[c] |c. P c} (conc {[c] |c. P c} ({[]} \<union> {[c] |c. P c})) \<longleftrightarrow>
     length s \<in> {2, 3} \<and> list_all P s"
  unfolding conc_class by (cases s rule: remdups_adj.cases) (auto simp: length_Suc_conv numeral_3_eq_3 numeral_2_eq_2)

lemma lang_RChar: "lang (RChar c) = {[c]}"
  by (auto simp: RChar_def in_class_def in_range_def)

lemma email_lang:
  "isValidEmail s \<longleftrightarrow> (\<exists>user domain tld. s = user @ ''@'' @ domain @ ''.'' @ tld \<and>
     (user \<noteq> [] \<and> list_all (in_class email_local_class) user) \<and>
     (domain \<noteq> [] \<and> list_all (in_class email_domain_class) domain) \<and>
     (length tld \<in> {2, 3} \<and> list_all (in_class email_tld_class) tld))"
  unfolding isValidEmail_def regex_match_lang lang.simps(4,5) lang_RChar lang.simps(2,3) tld_lang
    conc_one conc_iff [of _ "lang (RPlus _)"] lang_RPlus_class
  by (auto; blast)

text \<open>C34: The validators compute what their patterns say: a user id is valid exactly if it is a nonempty
  text of letters, digits, underscores, dots and hyphens, and an email address exactly if it has the
  form local@domain.tld with two or three letters or digits at the end; the range \<^verbatim>\<open>A-z\<close> of the local
  part also admits the six characters between Z and a.\<close>

theorem validators_accept:
  "(isValidUserId s \<longleftrightarrow> s \<noteq> [] \<and> list_all (\<lambda>c. is_alnum c \<or> c \<in> set ''_.-'') s) \<and>
   (isValidEmail s \<longleftrightarrow> (\<exists>user domain tld. s = user @ ''@'' @ domain @ ''.'' @ tld \<and>
      user \<noteq> [] \<and> list_all (\<lambda>c. is_alnum c \<or> 91 \<le> (of_char c :: nat) \<and> (of_char c :: nat) \<le> 96 \<or> c \<in> set ''.-'') user \<and>
      domain \<noteq> [] \<and> list_all (\<lambda>c. is_alnum c \<or> c \<in> set ''_-'') domain \<and>
      length tld \<in> {2, 3} \<and> list_all is_alnum tld))"
  unfolding email_lang classes [abs_def] isValidUserId_def regex_match_lang lang_RPlus_class
  by (simp add: disj_assoc)

subsection \<open>Login\<close>

text \<open>The calls of a login that goes all the way.\<close>

definition login_calls :: "string \<Rightarrow> login_request \<Rightarrow> db_call list" where
  "login_calls ip req =
     [DB_get_connection, DB_prepare select_sql, DB_execute select_sql [lr_user_id req, lr_password req],
      DB_prepare insert_sql, DB_execute insert_sql [''session_id'', lr_user_id req, ip]]"

text \<open>C33: What a login does: for a well-formed user id, a user id of less than four characters or a
  password of less than six it returns at once and asks nothing of the database; so only an
  ill-formed user id is ever looked up. Then it makes an initial part of five calls: it takes a
  connection, selects the user, and only if a row was found inserts a login session, always with
  the same session id and the address of the session's peer. The statement that would update the user is never sent.\<close>

theorem login_database_calls:
  shows "(let (calls, r) = login db remote req [] in
     prefix calls (login_calls (get_remote_address remote) req) \<and>
     (calls = [] \<longleftrightarrow> isValidUserId (lr_user_id req) \<or> length (lr_user_id req) < 4 \<or> length (lr_password req) < 6) \<and>
     (3 < length calls \<longrightarrow> (\<exists>row. db (take 2 (login_calls (get_remote_address remote) req)) (login_calls (get_remote_address remote) req ! 2) = Inr row \<and> dr_has_rows row)) \<and>
     (calls = [] \<longrightarrow> r = Inr ()) \<and> DB_prepare update_sql \<notin> set calls)"
proof -
  have sql: "update_sql \<noteq> select_sql" "update_sql \<noteq> insert_sql"
    by (simp_all add: update_sql_def select_sql_def insert_sql_def)
  show ?thesis
  proof (cases "isValidUserId (lr_user_id req) \<or> length (lr_user_id req) < 4 \<or> length (lr_password req) < 6")
    case True
    then have "login db remote req [] = ([], Inr ())"
      by (auto simp: login_def isValidUserIdLength_def isValidPasswordLength_def co_return_def)
    then show ?thesis using True by simp
  next
    case False
    let ?cs = "login_calls (get_remote_address remote) req"
    have "login db remote req [] =
       (case db [] DB_get_connection of Inl x \<Rightarrow> (take 1 ?cs, Inl x) | Inr _ \<Rightarrow>
       (case db (take 1 ?cs) (?cs ! 1) of Inl x \<Rightarrow> (take 2 ?cs, Inl x) | Inr _ \<Rightarrow>
       (case db (take 2 ?cs) (?cs ! 2) of Inl x \<Rightarrow> (take 3 ?cs, Inl x) | Inr row \<Rightarrow>
        if \<not> dr_has_rows row then (take 3 ?cs, Inr ()) else
       (case db (take 3 ?cs) (?cs ! 3) of Inl x \<Rightarrow> (take 4 ?cs, Inl x) | Inr _ \<Rightarrow>
       (case db (take 4 ?cs) (?cs ! 4) of Inl x \<Rightarrow> (take 5 ?cs, Inl x) | Inr _ \<Rightarrow> (take 5 ?cs, Inr ()))))))"
      using False
      by (auto simp: login_def isValidUserIdLength_def isValidPasswordLength_def co_return_def co_bind_def
          query_def selectUser_def insertUser_def login_calls_def Let_def split: sum.splits)
    moreover have "?cs \<noteq> []" "length ?cs = 5" "DB_prepare update_sql \<notin> set ?cs"
      using sql by (simp_all add: login_calls_def)
    ultimately show ?thesis using False
      by (auto simp: take_is_prefix dest: in_set_takeD split: sum.splits)
  qed
qed

definition demo_database :: database where
  "demo_database = (\<lambda>calls q. Inr \<lparr>dr_has_rows = True, dr_last_insert_id = 0\<rparr>)"

definition demo_remote :: remote_answer where
  "demo_remote = \<lparr>ra_default = (''0.0.0.0'', 0), ra_peer = Some (''10.0.0.7'', 50000)\<rparr>"

theorem login_database_calls_witness:
  "DB_prepare update_sql \<notin> set (fst (login demo_database demo_remote \<lparr>lr_user_id = ''a b c'', lr_password = ''secret''\<rparr> []))"
  using login_database_calls [of demo_database demo_remote "\<lparr>lr_user_id = ''a b c'', lr_password = ''secret''\<rparr>"]
  by (simp add: Let_def split: prod.splits)

end
