(* ===== verification/Language_Provider.thy ===== *)
theory Language_Provider
  imports Config Strings
begin

section \<open>Localised messages\<close>

text \<open>
  The class \<open>LanguageProvider\<close> of \<open>common/locales/language_provider.hpp\<close> and
  \<open>language_provider.cpp\<close>, with the enumerations of \<open>language.hpp\<close> and \<open>error_codes.hpp\<close>. An
  enumeration class with a fixed underlying type holds every value of that type, and the code
  casts any number to an error code: languages are bytes and error codes 16-bit words.
\<close>

type_synonym language = u8
type_synonym locale_code = u16

definition Language_en :: language where "Language_en = 1"

definition languages :: "(language \<times> string) list" where
  "languages = [(Language_en, ''en'')]"

definition locale_error_codes :: "(string \<times> locale_code) list" where
  "locale_error_codes =
     [(''Success'', 1), (''InvalidUserId'', 101), (''InvalidUserIdLength'', 102),
      (''InvalidPasswordLength'', 103), (''DatabaseUserNotFound'', 201), (''DatabaseInsertFailed'', 202)]"

type_synonym error_messages = "language \<Rightarrow> (locale_code \<Rightarrow> string option) option"

definition check_language :: "language \<Rightarrow> bool" where
  "check_language l \<longleftrightarrow> l \<in> set (map fst languages)"

definition language_code_to_text :: "language \<Rightarrow> string" where
  "language_code_to_text l = (case map_of languages l of Some t \<Rightarrow> t | None \<Rightarrow> ''en'')"

definition language_text_to_code :: "string \<Rightarrow> language" where
  "language_text_to_code t = (case find (\<lambda>(l, u). u = t) languages of Some (l, u) \<Rightarrow> l | None \<Rightarrow> Language_en)"

definition error_code_to_text :: "error_messages \<Rightarrow> locale_code \<Rightarrow> language \<Rightarrow> string" where
  "error_code_to_text msgs code l =
     (case msgs l of
        None \<Rightarrow> []
      | Some errors \<Rightarrow> (case errors code of Some t \<Rightarrow> t | None \<Rightarrow> []))"

text \<open>
  \<^verbatim>\<open>std::from_chars\<close> for a 16-bit unsigned: the longest prefix of digits, an error if there is none or
  the number does not fit.
\<close>

definition from_chars_u16 :: "string \<Rightarrow> u16 option" where
  "from_chars_u16 s =
     (let ds = takeWhile is_digit s in
      if ds = [] \<or> digits_value ds > 65535 then None else Some (of_nat (digits_value ds)))"

fun save_loop ::
  "('v, 'o) json_ops \<Rightarrow> (string \<times> 'v) list \<Rightarrow> (locale_code \<Rightarrow> string option) \<Rightarrow>
     (locale_code \<Rightarrow> string option) res"
where
  "save_loop J [] m = Inr m"
| "save_loop J ((key, value) # items) m =
     (case from_chars_u16 key of
        Some code \<Rightarrow> rbind (jo_as_string J value) (\<lambda>text. save_loop J items (m(code \<mapsto> text)))
      | None \<Rightarrow> save_loop J items m)"

definition save_errors ::
  "('v, 'o) json_ops \<Rightarrow> string \<Rightarrow> string \<Rightarrow> error_messages \<Rightarrow> error_messages res"
where
  "save_errors J content lang msgs =
     (case jo_parse J content of
        None \<Rightarrow> Inr msgs
      | Some value \<Rightarrow>
          if jo_kind J value \<noteq> K_object then Inr msgs
          else rbind (jo_as_object J value) (\<lambda>obj.
            let lang_enum = language_text_to_code lang in
            rbind (save_loop J (jo_items J obj) Map.empty) (\<lambda>m. Inr (msgs(lang_enum \<mapsto> m)))))"

definition load_file_content ::
  "('v, 'o) json_ops \<Rightarrow> file_system \<Rightarrow> string \<Rightarrow> error_messages \<Rightarrow> error_messages res"
where
  "load_file_content J fs lang msgs =
     (case fs (''resource/lang/'' @ lang) of
        None \<Rightarrow> Inr msgs
      | Some f \<Rightarrow> (case read_contents f of None \<Rightarrow> Inr msgs | Some content \<Rightarrow> save_errors J content lang msgs))"

definition load_language_file ::
  "('v, 'o) json_ops \<Rightarrow> file_system \<Rightarrow> language \<Rightarrow> error_messages \<Rightarrow> error_messages res"
where
  "load_language_file J fs l msgs = load_file_content J fs (language_code_to_text l @ ''.json'') msgs"

fun load_each ::
  "('v, 'o) json_ops \<Rightarrow> file_system \<Rightarrow> (language \<times> string) list \<Rightarrow> error_messages \<Rightarrow> error_messages res"
where
  "load_each J fs [] msgs = Inr msgs"
| "load_each J fs ((l, name) # rest) msgs =
     rbind (load_file_content J fs (name @ ''.json'') msgs) (load_each J fs rest)"

definition load_language_files ::
  "('v, 'o) json_ops \<Rightarrow> file_system \<Rightarrow> error_messages \<Rightarrow> error_messages res"
where
  "load_language_files J fs msgs = load_each J fs languages msgs"

end
