(* ===== verification/Language_Props.thy ===== *)
theory Language_Props
  imports Language_Provider Json_Instance
begin

section \<open>Properties of the localised messages\<close>

text \<open>
  What a language file gives after loading, stated with the table of its entries, and the message
  file of the repository as a concrete instance.
\<close>

text \<open>The entries of a file that count, later ones taking precedence.\<close>

fun entry_of :: "('v, 'o) json_ops \<Rightarrow> string \<times> 'v \<Rightarrow> (locale_code \<times> string) list" where
  "entry_of J (key, value) =
     (case from_chars_u16 key of
        Some code \<Rightarrow> (case jo_as_string J value of Inr text \<Rightarrow> [(code, text)] | Inl _ \<Rightarrow> [])
      | None \<Rightarrow> [])"

definition message_table :: "('v, 'o) json_ops \<Rightarrow> (string \<times> 'v) list \<Rightarrow> (locale_code \<times> string) list" where
  "message_table J items = rev (concat (map (entry_of J) items))"

definition texts_only :: "('v, 'o) json_ops \<Rightarrow> (string \<times> 'v) list \<Rightarrow> bool" where
  "texts_only J items \<longleftrightarrow>
     list_all (\<lambda>(key, value). from_chars_u16 key = None \<or> jo_kind J value = K_string) items"

lemma json_string: "json_ok J \<Longrightarrow> (\<exists>t. jo_as_string J v = Inr t) \<longleftrightarrow> jo_kind J v = K_string"
  by (simp add: json_ok_def)

lemma save_loop_table:
  "json_ok J \<Longrightarrow> texts_only J items \<Longrightarrow> save_loop J items m = Inr (m ++ map_of (message_table J items))"
proof (induction items arbitrary: m)
  case (Cons item items)
  obtain key v where i: "item = (key, v)" by (cases item)
  have rest: "texts_only J items" using Cons.prems by (simp add: texts_only_def)
  have table: "message_table J ((key, v) # items) = message_table J items @ rev (entry_of J (key, v))"
    by (simp add: message_table_def)
  show ?case
  proof (cases "from_chars_u16 key")
    case None
    with Cons rest show ?thesis by (simp add: i table)
  next
    case (Some code)
    with Cons.prems json_string [OF Cons.prems(1), of v] obtain t where t: "jo_as_string J v = Inr t"
      by (auto simp: i texts_only_def)
    have "m(code \<mapsto> t) ++ map_of xs = m ++ map_of (xs @ [(code, t)])" for xs
      by (auto simp: map_add_def fun_eq_iff split: option.splits)
    with Some t Cons rest show ?thesis by (simp add: i table)
  qed
qed (simp add: message_table_def)

lemma save_loop_throws:
  "json_ok J \<Longrightarrow> \<not> texts_only J items \<Longrightarrow> \<exists>x. save_loop J items m = Inl x"
proof (induction items arbitrary: m)
  case (Cons item items)
  obtain key v where i: "item = (key, v)" by (cases item)
  show ?case
    using Cons json_string [OF Cons.prems(1), of v]
    by (cases "from_chars_u16 key"; cases "jo_as_string J v") (auto simp: i texts_only_def)
qed (simp add: texts_only_def)

lemma file_name_is_no_language: "language_text_to_code (name @ ''.json'') = Language_en"
proof -
  have "name @ ''.json'' \<noteq> ''en''" by (auto dest: arg_cong [where f = length])
  then show ?thesis by (simp add: language_text_to_code_def languages_def)
qed

text \<open>C37: Loading a language file: if it is a JSON object whose numbered members are texts, afterwards
  every error code has the text of the last member whose key starts with that number, any other
  code the empty text, and nothing is left of what was loaded before; a numbered member that is
  not a text makes the load throw; and a missing, unreadable or malformed file changes nothing.
  Whatever the name of the file, its messages become those of English, since the name with its
  extension is looked up as a language.\<close>

theorem load_file_messages:
  assumes "json_ok J" and "fs (''resource/lang/'' @ name @ ''.json'') = Some f" and "\<not> file_broken f"
  shows "case jo_parse J (file_data f) of
     None \<Rightarrow> load_file_content J fs (name @ ''.json'') msgs = Inr msgs
   | Some v \<Rightarrow>
      (case jo_as_object J v of
         Inl _ \<Rightarrow> load_file_content J fs (name @ ''.json'') msgs = Inr msgs
       | Inr ob \<Rightarrow>
           if texts_only J (jo_items J ob)
           then \<exists>msgs'. load_file_content J fs (name @ ''.json'') msgs = Inr msgs' \<and>
             (\<forall>code. error_code_to_text msgs' code Language_en =
               (case map_of (message_table J (jo_items J ob)) code of Some t \<Rightarrow> t | None \<Rightarrow> [])) \<and>
             (\<forall>l code. l \<noteq> Language_en \<longrightarrow> error_code_to_text msgs' code l = error_code_to_text msgs code l)
           else \<exists>x. load_file_content J fs (name @ ''.json'') msgs = Inl x)"
proof -
  have obj: "jo_kind J v = K_object \<longleftrightarrow> (\<exists>ob. jo_as_object J v = Inr ob)" for v
    using assms(1) by (simp add: json_ok_def)
  have load: "load_file_content J fs (name @ ''.json'') msgs = save_errors J (file_data f) (name @ ''.json'') msgs"
    using assms(2,3) by (simp add: load_file_content_def read_contents_eq)
  note loop = save_loop_table [OF assms(1)] save_loop_throws [OF assms(1)]
  show ?thesis
  proof (cases "jo_parse J (file_data f)")
    case (Some v)
    show ?thesis
    proof (cases "jo_as_object J v")
      case (Inr ob)
      then show ?thesis
        using Some obj [of v] loop [of "jo_items J ob"]
        by (cases "texts_only J (jo_items J ob)")
          (auto simp: load save_errors_def file_name_is_no_language error_code_to_text_def rbind_eq_Inl)
    qed (use Some obj [of v] in \<open>simp add: load save_errors_def\<close>)
  qed (simp add: load save_errors_def)
qed

text \<open>The message file of the repository.\<close>

definition en_json :: jv where
  "en_json = JObj
     [(''1'', JStr ''Success''), (''101'', JStr ''Invalid user ID.''),
      (''102'', JStr ''User ID length is invalid.''), (''103'', JStr ''Password length is invalid.''),
      (''201'', JStr ''User not found.''), (''202'', JStr ''Failed to insert data into the database.'')]"

definition en_files :: file_system where
  "en_files = [''resource/lang/en.json'' \<mapsto> \<lparr>file_data = ''en'', file_broken = False\<rparr>]"

definition en_ops :: "(jv, (string \<times> jv) list) json_ops" where
  "en_ops = jv_ops (\<lambda>t. if t = ''en'' then Some en_json else None)"

lemma from_chars_demo:
  "from_chars_u16 ''1'' = Some 1" "from_chars_u16 ''101'' = Some 101" "from_chars_u16 ''102'' = Some 102"
  "from_chars_u16 ''103'' = Some 103" "from_chars_u16 ''201'' = Some 201" "from_chars_u16 ''202'' = Some 202"
  by (simp_all add: from_chars_u16_def is_digit_def digits_value_def of_char_def)

theorem load_file_messages_witness:
  "\<exists>msgs. load_file_content en_ops en_files ''en.json'' Map.empty = Inr msgs \<and>
     map (\<lambda>(n, code). error_code_to_text msgs code Language_en) locale_error_codes =
       [''Success'', ''Invalid user ID.'', ''User ID length is invalid.'', ''Password length is invalid.'',
        ''User not found.'', ''Failed to insert data into the database.'']"
proof -
  let ?f = "\<lparr>file_data = ''en'', file_broken = False\<rparr>"
  have "json_ok en_ops" by (simp add: en_ops_def jv_ops_ok)
  moreover have "en_files (''resource/lang/'' @ ''en'' @ ''.json'') = Some ?f" by (simp add: en_files_def)
  ultimately have *: "case jo_parse en_ops (file_data ?f) of
     None \<Rightarrow> load_file_content en_ops en_files (''en'' @ ''.json'') Map.empty = Inr Map.empty
   | Some v \<Rightarrow>
      (case jo_as_object en_ops v of
         Inl _ \<Rightarrow> load_file_content en_ops en_files (''en'' @ ''.json'') Map.empty = Inr Map.empty
       | Inr ob \<Rightarrow>
           if texts_only en_ops (jo_items en_ops ob)
           then \<exists>msgs'. load_file_content en_ops en_files (''en'' @ ''.json'') Map.empty = Inr msgs' \<and>
             (\<forall>code. error_code_to_text msgs' code Language_en =
               (case map_of (message_table en_ops (jo_items en_ops ob)) code of Some t \<Rightarrow> t | None \<Rightarrow> [])) \<and>
             (\<forall>l code. l \<noteq> Language_en \<longrightarrow> error_code_to_text msgs' code l = error_code_to_text Map.empty code l)
           else \<exists>x. load_file_content en_ops en_files (''en'' @ ''.json'') Map.empty = Inl x)"
    by (rule load_file_messages) simp
  show ?thesis
    using *
    by (auto simp: en_ops_def en_json_def texts_only_def from_chars_demo message_table_def
        locale_error_codes_def)
qed

end
