(* ===== verification/Application.thy ===== *)
theory Application
  imports Server
begin

section \<open>The application\<close>

text \<open>
  The class \<open>Application\<close> of \<open>src/application/application.hpp\<close> and \<open>application.cpp\<close>, and \<open>main\<close>. The
  environment of a start is a record of parameters: the file system, the directory and network
  operations and the starting of threads. The database pool, the thread and buffer pools and the
  router keep no state of the application's own.
\<close>

record pool_params =
  pp_host :: string
  pp_port :: u16
  pp_database :: string
  pp_username :: string
  pp_password :: string

definition makeParams :: "('v, 'o) json_ops \<Rightarrow> 'o config \<Rightarrow> pool_params res" where
  "makeParams J cfg =
     rbind (get_string J cfg ''database.host'' ''host'') (\<lambda>host.
     rbind (get_int J cfg ''database.port'' 3306) (\<lambda>port.
     rbind (get_string J cfg ''database.database'' ''database'') (\<lambda>database.
     rbind (get_string J cfg ''database.username'' ''username'') (\<lambda>username.
     rbind (get_string J cfg ''database.password'' ''password'') (\<lambda>password.
     Inr \<lparr>pp_host = host, pp_port = of_int port, pp_database = database, pp_username = username,
          pp_password = password\<rparr>)))))"

record 'o application =
  app_config :: "'o config"
  app_params :: pool_params
  app_logger :: logger
  app_server :: server
  app_work_guard :: bool
  app_io_stopped :: bool
  app_waits :: nat
  app_log :: "(log_level \<times> string) list"

record 'a environment =
  env_files :: file_system
  env_mkdirs :: "string \<Rightarrow> bool"
  env_address :: "string \<Rightarrow> 'a res"
  env_net :: "'a acceptor_call \<Rightarrow> unit res"
  env_spawn :: "nat \<Rightarrow> bool"

definition do_await_stop :: "'o application \<Rightarrow> 'o application" where
  "do_await_stop app = app\<lparr>app_waits := app_waits app + 1\<rparr>"

text \<open>
  The constructor: the members in the order of their declaration, then the body. The wait for
  signals is started before the configuration is loaded a second time; it is part of the state the
  constructor returns.
\<close>

definition application_new :: "'a environment \<Rightarrow> ('v, 'o) json_ops \<Rightarrow> 'o application res" where
  "application_new env J =
     rbind (config_new J (env_files env) ''config.json'') (\<lambda>cfg0.
     rbind (makeParams J cfg0) (\<lambda>params.
     rbind (config_load J (env_files env) cfg0) (\<lambda>(loaded, cfg).
     if \<not> loaded then Inl (Runtime_error ''config.json file not found'')
     else
     rbind (logger_new J cfg) (\<lambda>logger0.
     let (ok, logger) = getFileFolders (env_mkdirs env) logger0 in
     if \<not> ok then Inl (Invalid_argument ''There is an error in path, name or extension of log file'')
     else
     rbind (server_new (env_address env) (env_net env) J cfg) (\<lambda>(server, calls).
     Inr (do_await_stop
       \<lparr>app_config = cfg, app_params = params, app_logger = logger, app_server = server,
        app_work_guard = True, app_io_stopped = False, app_waits = 0, app_log = []\<rparr>))))))"

definition app_logs :: "log_level \<Rightarrow> string \<Rightarrow> 'o application \<Rightarrow> 'o application" where
  "app_logs level message app = app\<lparr>app_log := app_log app @ [(level, message)]\<rparr>"

definition app_stop :: "'o application \<Rightarrow> 'o application" where
  "app_stop app =
     (let app1 = app_logs Info ''Application shutdown started'' app;
          app2 = app1\<lparr>app_server := server_stop (app_server app1)\<rparr>;
          app3 = app2\<lparr>app_work_guard := False\<rparr> in
      app3\<lparr>app_io_stopped := True\<rparr>)"

subsection \<open>Signals\<close>

datatype signal = SIGHUP | SIGINT | SIGTERM | SIGQUIT

text \<open>What \<^verbatim>\<open>std::exception\<close> catches.\<close>

fun is_std_exception :: "cpp_exn \<Rightarrow> bool" where
  "is_std_exception (Thrown_string _) = False"
| "is_std_exception (Undefined_behaviour _) = False"
| "is_std_exception _ = True"

definition signal_handler ::
  "('v, 'o) json_ops \<Rightarrow> file_system \<Rightarrow> bool \<Rightarrow> signal \<Rightarrow> 'o application \<Rightarrow> 'o application res"
where
  "signal_handler J fs ec signo app =
     (if ec then Inr app
      else case signo of
        SIGHUP \<Rightarrow>
          (case config_reload J fs (app_config app) of
             Inl x \<Rightarrow> if is_std_exception x then Inr (do_await_stop app) else Inl x
           | Inr (ok, cfg) \<Rightarrow> Inr (do_await_stop (app\<lparr>app_config := cfg\<rparr>)))
      | _ \<Rightarrow> Inr (app_stop app))"

text \<open>A signal is handled by the pending wait; with no wait pending nothing runs.\<close>

definition deliver_signal ::
  "('v, 'o) json_ops \<Rightarrow> file_system \<times> signal \<Rightarrow> 'o application \<Rightarrow> 'o application res"
where
  "deliver_signal J = (\<lambda>(fs, signo) app.
     if app_waits app = 0 then Inr app
     else signal_handler J fs False signo (app\<lparr>app_waits := app_waits app - 1\<rparr>))"

fun deliver_signals ::
  "('v, 'o) json_ops \<Rightarrow> (file_system \<times> signal) list \<Rightarrow> 'o application \<Rightarrow> 'o application res"
where
  "deliver_signals J [] app = Inr app"
| "deliver_signals J (x # xs) app = rbind (deliver_signal J x app) (deliver_signals J xs)"

subsection \<open>Running\<close>

text \<open>
  \<open>run\<close> starts the accept loop, and the workers, which it joins; \<open>during\<close> is what the handlers do
  to the application until the workers return.
\<close>

definition app_run ::
  "'a environment \<Rightarrow> ('v, 'o) json_ops \<Rightarrow> ('o application \<Rightarrow> 'o application) \<Rightarrow> 'o application \<Rightarrow>
     ('o application \<times> nat list) res"
where
  "app_run env J during app =
     (let app1 = app_logs Alert ''program started'' app;
          app2 = app_logs Info ''Running server...'' app1;
          app3 = app2\<lparr>app_server := start_accept (app_server app2)\<rparr> in
      rbind (start_workers (env_spawn env) J (app_config app3)) (\<lambda>joined.
      let app4 = during app3 in
      Inr (app_logs Info ''Server stopped'' app4, joined)))"

text \<open>\<open>main\<close>: exit code 0, or no exit code when the process is terminated by an exception.\<close>

definition main ::
  "'a environment \<Rightarrow> ('v, 'o) json_ops \<Rightarrow> ('o application \<Rightarrow> 'o application) \<Rightarrow> int option"
where
  "main env J during =
     (case rbind (application_new env J) (app_run env J during) of
        Inr _ \<Rightarrow> Some 0
      | Inl x \<Rightarrow> if is_std_exception x then Some 0 else None)"

end
