(* ===== verification/Application_Props.thy ===== *)
theory Application_Props
  imports Application Server_Props Logger_Props
begin

section \<open>Properties of the application\<close>

text \<open>
  What a start needs, what the program does with the configuration of the repository, and what a
  sequence of signals does.
\<close>

text \<open>The configuration after a sequence of reloads: the last good file.\<close>

fun reloads :: "('v, 'o) json_ops \<Rightarrow> file_system list \<Rightarrow> 'o config \<Rightarrow> 'o config" where
  "reloads J [] cfg = cfg"
| "reloads J (fs # rest) cfg =
     reloads J rest (case config_reload J fs cfg of Inr (ok, cfg') \<Rightarrow> cfg' | Inl _ \<Rightarrow> cfg)"

lemma reload_defined:
  assumes "json_ok J"
  obtains ok cfg' where "config_reload J fs cfg = Inr (ok, cfg')"
proof -
  have "jo_kind J v = K_object \<longleftrightarrow> (\<exists>ob. jo_as_object J v = Inr ob)" for v
    using assms by (simp add: json_ok_def)
  then show thesis using that
    by (fastforce simp: config_reload_def config_load_def split: option.splits if_splits)
qed

lemma no_wait_no_effect: "app_waits app = 0 \<Longrightarrow> deliver_signals J sigs app = Inr app"
  by (induction sigs) (simp_all add: deliver_signal_def split: prod.splits)

text \<open>C26: Signals: every hangup signal before the first terminating one reloads the configuration, which
  becomes that of the last good file, and waits for the next signal; the first terminating signal
  closes the acceptor and stops the event loop, and ends the waiting, so later signals do nothing.
  The limit on sessions and the level of the log are those of the start: a reload does not change
  them.\<close>

theorem signals_reload_then_stop:
  assumes "json_ok J" and "app_waits app = 1"
  shows "\<exists>app'. deliver_signals J sigs app = Inr app' \<and>
    app_config app' = reloads J (map fst (takeWhile (\<lambda>x. snd x = SIGHUP) sigs)) (app_config app) \<and>
    app_logger app' = app_logger app \<and> max_sessions (app_server app') = max_sessions (app_server app) \<and>
    (if list_all (\<lambda>x. snd x = SIGHUP) sigs
     then app_waits app' = 1 \<and> app_io_stopped app' = app_io_stopped app \<and> app_server app' = app_server app
     else app_waits app' = 0 \<and> app_io_stopped app' \<and> \<not> app_work_guard app' \<and> \<not> srv_open (app_server app'))"
  using assms(2)
proof (induction sigs arbitrary: app)
  case (Cons x sigs)
  obtain fs sg where x: "x = (fs, sg)" by (cases x)
  obtain ok cfg' where r: "config_reload J fs (app_config app) = Inr (ok, cfg')"
    using reload_defined [OF assms(1)] by blast
  show ?case
  proof (cases "sg = SIGHUP")
    case True
    have "deliver_signal J x app = Inr (app\<lparr>app_config := cfg', app_waits := 1\<rparr>)"
      using Cons.prems r by (simp add: x True deliver_signal_def signal_handler_def do_await_stop_def)
    then show ?thesis
      using Cons.IH [of "app\<lparr>app_config := cfg', app_waits := 1\<rparr>"] r
      by (cases "list_all (\<lambda>x. snd x = SIGHUP) sigs") (simp_all add: x True)
  next
    case False
    let ?app = "app_stop (app\<lparr>app_waits := 0\<rparr>)"
    have "deliver_signal J x app = Inr ?app"
      using Cons.prems False by (cases sg) (simp_all add: x deliver_signal_def signal_handler_def)
    moreover have "app_waits ?app = 0" "app_io_stopped ?app" "\<not> app_work_guard ?app"
      "\<not> srv_open (app_server ?app)" "app_config ?app = app_config app" "app_logger ?app = app_logger app"
      "max_sessions (app_server ?app) = max_sessions (app_server app)"
      by (simp_all add: app_stop_def app_logs_def server_stop_def Let_def)
    ultimately show ?thesis using False no_wait_no_effect [of ?app J sigs] by (simp add: x)
  qed
qed simp

lemma loaded_config:
  assumes "json_ok J" and "config_load J fs cfg = Inr (True, cfg')"
  obtains f v where "fs (cfg_file_path cfg) = Some f" "\<not> file_broken f"
    "jo_parse J (file_data f) = Some v" "jo_as_object J v = Inr (cfg_root cfg')"
  using assms by (auto simp: config_load_def read_contents_eq rbind_eq_Inr split: option.splits if_splits)

lemma config_load_path: "config_load J fs cfg = Inr (ok, cfg') \<Longrightarrow> cfg_file_path cfg' = cfg_file_path cfg"
  by (auto simp: config_load_def rbind_eq_Inr split: option.splits if_splits)

lemma server_needs_bool:
  assumes "json_ok J" and "server_new make_address net J cfg = Inr (s, calls)"
  shows "srv_open s \<and> (\<exists>b. config_value J (cfg_root cfg) ''server.reuse_address'' = Some b \<and> jo_kind J b = K_bool)"
proof -
  let ?cv = "config_value J (cfg_root cfg) ''server.reuse_address''"
  let ?v = "case ?cv of None \<Rightarrow> jo_null J | Some v \<Rightarrow> v"
  have f: "find_key J cfg ''server.reuse_address'' = Inr ?v" by (rule find_key_value [OF assms(1)])
  obtain b where b: "get_bool J cfg ''server.reuse_address'' False = Inr b" and o: "srv_open s"
    using assms(2) by (auto simp: server_new_def rbind_eq_Inr Let_def srv_logs_def)
  have kinds: "jo_kind J v = K_bool \<longleftrightarrow> (\<exists>b. jo_as_bool J v = Inr b)" "jo_kind J (jo_null J) = K_null" for v
    using assms(1) by (simp_all add: json_ok_def)
  have "jo_kind J ?v = K_bool"
    using b f kinds(1) [of ?v] by (cases "jo_kind J ?v = K_bool") (auto simp: get_bool_def)
  then show ?thesis using kinds(2) o by (cases ?cv) auto
qed

lemma application_newE:
  assumes "application_new env J = Inr app"
  obtains cfg0 params cfg logger0 logger server calls where
    "config_new J (env_files env) ''config.json'' = Inr cfg0"
    "config_load J (env_files env) cfg0 = Inr (True, cfg)"
    "logger_new J cfg = Inr logger0" "getFileFolders (env_mkdirs env) logger0 = (True, logger)"
    "server_new (env_address env) (env_net env) J cfg = Inr (server, calls)"
    "app = do_await_stop \<lparr>app_config = cfg, app_params = params, app_logger = logger,
        app_server = server, app_work_guard = True, app_io_stopped = False, app_waits = 0, app_log = []\<rparr>"
proof -
  obtain cfg0 params p logger0 q where a: "config_new J (env_files env) ''config.json'' = Inr cfg0"
    "config_load J (env_files env) cfg0 = Inr p" "fst p" "logger_new J (snd p) = Inr logger0"
    "fst (getFileFolders (env_mkdirs env) logger0)"
    "server_new (env_address env) (env_net env) J (snd p) = Inr q"
    "app = do_await_stop \<lparr>app_config = snd p, app_params = params,
        app_logger = snd (getFileFolders (env_mkdirs env) logger0), app_server = fst q,
        app_work_guard = True, app_io_stopped = False, app_waits = 0, app_log = []\<rparr>"
    using assms by (auto simp: application_new_def rbind_eq_Inr Let_def case_prod_unfold split: if_splits)
  show thesis
    by (rule that [of cfg0 "snd p" logger0 "snd (getFileFolders (env_mkdirs env) logger0)" "fst q" "snd q" params])
      (use a in \<open>simp_all add: prod_eq_iff\<close>)
qed

text \<open>C36: What a start needs: the application starts only if \<^verbatim>\<open>config.json\<close> can be read and is a JSON object,
  names a log level and a log file with extension \<^verbatim>\<open>.log\<close> or \<^verbatim>\<open>.txt\<close>, and has a boolean
  \<open>server.reuse_address\<close>; then one wait for signals is pending, the event loop is not stopped, the acceptor
  is open, and with \<open>start_accept\<close> the server has no session and waits for its first connection.\<close>

theorem application_start:
  assumes "json_ok J" and "application_new env J = Inr app"
  shows "(\<exists>f v b. env_files env ''config.json'' = Some f \<and> \<not> file_broken f \<and>
      jo_parse J (file_data f) = Some v \<and> jo_as_object J v = Inr (cfg_root (app_config app)) \<and>
      config_value J (cfg_root (app_config app)) ''server.reuse_address'' = Some b \<and> jo_kind J b = K_bool) \<and>
    get_string J (app_config app) ''logging.level'' [] = Inr (levelToString (lg_configLevel (app_logger app))) \<and>
    (\<exists>log_file. get_string J (app_config app) ''logging.file'' [] = Inr log_file \<and>
      path_extension log_file \<in> {''.log'', ''.txt''}) \<and>
    app_waits app = 1 \<and> \<not> app_io_stopped app \<and> srv_open (app_server app) \<and>
    started_server (start_accept (app_server app))"
proof -
  obtain cfg0 params cfg logger0 logger server calls where
    c0: "config_new J (env_files env) ''config.json'' = Inr cfg0"
    and cl: "config_load J (env_files env) cfg0 = Inr (True, cfg)"
    and lg: "logger_new J cfg = Inr logger0" and ff: "getFileFolders (env_mkdirs env) logger0 = (True, logger)"
    and sv: "server_new (env_address env) (env_net env) J cfg = Inr (server, calls)"
    and app: "app = do_await_stop \<lparr>app_config = cfg, app_params = params, app_logger = logger,
        app_server = server, app_work_guard = True, app_io_stopped = False, app_waits = 0, app_log = []\<rparr>"
    using assms(2) by (rule application_newE)
  have "cfg_file_path cfg0 = ''config.json''"
    using c0 by (auto simp: config_new_def rbind_eq_Inr dest: config_load_path)
  then obtain f v where f: "env_files env ''config.json'' = Some f" "\<not> file_broken f"
    "jo_parse J (file_data f) = Some v" "jo_as_object J v = Inr (cfg_root cfg)"
    using loaded_config [OF assms(1) cl] by metis
  have level: "get_string J cfg ''logging.level'' [] = Inr (levelToString (lg_configLevel logger0))"
    and lfile: "get_string J cfg ''logging.file'' [] = Inr (lg_configFile logger0)"
    using lg by (auto simp: logger_new_def rbind_eq_Inr getLevel_def split: if_splits)
  have "lg_configLevel logger = lg_configLevel logger0" "path_extension (lg_configFile logger0) \<in> {''.log'', ''.txt''}"
    using ff by (auto simp: getFileFolders_def Let_def split: if_splits)
  with f level lfile server_needs_bool [OF assms(1) sv] server_new_started [OF sv] app show ?thesis
    by (simp add: do_await_stop_def)
qed

text \<open>The configuration file of the repository.\<close>

definition config_json :: "(string \<times> jv) list" where
  "config_json =
     [(''server'', JObj [(''address'', JStr ''0.0.0.0''), (''port'', JInt 8080), (''backlog'', JInt 1024),
        (''reuse_address'', JBool True)]),
      (''thread_pool'', JObj [(''thread_count'', JInt 2)]),
      (''socket'', JObj [(''tcp_no_delay'', JBool True), (''keep_alive'', JBool True)]),
      (''sessions'', JObj [(''max_sessions'', JInt 10000), (''max_message_size_bytes'', JInt 1048576)]),
      (''timeouts'', JObj [(''read_timeout_seconds'', JInt 10), (''write_timeout_seconds'', JInt 10),
        (''idle_timeout_seconds'', JInt 300)]),
      (''database'', JObj [(''host'', JStr ''localhost''), (''port'', JInt 3306), (''username'', JStr ''asio''),
        (''password'', JStr ''asio''), (''database'', JStr ''server_db'')]),
      (''logging'', JObj [(''level'', JStr ''Info''), (''file'', JStr ''logs/server.log''),
        (''flush_interval_seconds'', JInt 3)])]"

definition repo_json :: "(jv, (string \<times> jv) list) json_ops" where
  "repo_json = jv_ops (\<lambda>t. if t = ''config'' then Some (JObj config_json) else None)"

definition repo_env :: "string environment" where
  "repo_env = \<lparr>env_files = [''config.json'' \<mapsto> \<lparr>file_data = ''config'', file_broken = False\<rparr>],
     env_mkdirs = (\<lambda>_. True), env_address = Inr, env_net = (\<lambda>_. Inr ()), env_spawn = (\<lambda>_. True)\<rparr>"

definition repo_config :: "(string \<times> jv) list config" where
  "repo_config = \<lparr>cfg_file_path = ''config.json'', cfg_root = config_json\<rparr>"

lemma repo_config_values:
  "get_string repo_json repo_config ''database.host'' d = Inr ''localhost''"
  "get_int repo_json repo_config ''database.port'' n = Inr 3306"
  "get_string repo_json repo_config ''database.database'' d = Inr ''server_db''"
  "get_string repo_json repo_config ''database.username'' d = Inr ''asio''"
  "get_string repo_json repo_config ''database.password'' d = Inr ''asio''"
  "get_string repo_json repo_config ''logging.level'' d = Inr ''Info''"
  "get_string repo_json repo_config ''logging.file'' d = Inr ''logs/server.log''"
  "get_int repo_json repo_config ''logging.flush_interval_seconds'' n = Inr 3"
  "get_string repo_json repo_config ''server.address'' d = Inr ''0.0.0.0''"
  "get_int repo_json repo_config ''server.port'' n = Inr 8080"
  "get_bool repo_json repo_config ''server.reuse_address'' b = Inr b"
  "get_int repo_json repo_config ''server.backlog'' n = Inr 1024"
  "get_int repo_json repo_config ''sessions.max_sessions'' n = Inr 10000"
  by (simp_all add: get_string_def get_int_def get_bool_def find_key_def str_find_def repo_json_def
      repo_config_def config_json_def to_int32_def signed_take_bit_int_eq_self)

lemma repo_starts:
  obtains app where "application_new repo_env repo_json = Inr app" and "app_config app = repo_config"
    and "max_sessions (app_server app) = 10000"
proof -
  have load: "config_load repo_json (env_files repo_env) \<lparr>cfg_file_path = ''config.json'', cfg_root = r\<rparr> =
      Inr (True, repo_config)" for r
    by (simp add: config_load_def read_contents_eq repo_env_def repo_json_def repo_config_def)
  have new: "config_new repo_json (env_files repo_env) ''config.json'' = Inr repo_config"
    by (simp add: config_new_def load)
  have again: "config_load repo_json (env_files repo_env) repo_config = Inr (True, repo_config)"
    using load [of config_json] by (simp add: repo_config_def)
  have ext: "path_extension ''logs/server.log'' = ''.log''"
    by (simp add: path_extension_def path_filename_def)
  have net: "env_address repo_env = Inr" "env_net repo_env = (\<lambda>_. Inr ())" "env_mkdirs repo_env = (\<lambda>_. True)"
    by (simp_all add: repo_env_def)
  show thesis
    by (rule that, simp add: application_new_def new makeParams_def repo_config_values again logger_new_def
        getLevel_def getFileFolders_def ext server_new_def net Let_def) (simp_all add: do_await_stop_def srv_logs_def)
qed

theorem application_start_witness:
  "\<exists>app. application_new repo_env repo_json = Inr app \<and> app_waits app = 1 \<and> srv_open (app_server app)"
proof -
  obtain app where app: "application_new repo_env repo_json = Inr app" by (rule repo_starts)
  have "json_ok repo_json" by (simp add: repo_json_def jv_ops_ok)
  from application_start [OF this app] app show ?thesis by blast
qed

theorem signals_reload_then_stop_witness:
  "\<exists>app app'. application_new repo_env repo_json = Inr app \<and>
     deliver_signals repo_json [(Map.empty, SIGHUP), (Map.empty, SIGTERM), (Map.empty, SIGHUP)] app = Inr app' \<and>
     app_io_stopped app'"
proof -
  obtain app where app: "application_new repo_env repo_json = Inr app" by (rule repo_starts)
  have ok: "json_ok repo_json" by (simp add: repo_json_def jv_ops_ok)
  have "app_waits app = 1"
    using app by (rule application_newE) (simp add: do_await_stop_def)
  from signals_reload_then_stop [OF ok this, of "[(Map.empty, SIGHUP), (Map.empty, SIGTERM), (Map.empty, SIGHUP)]"] app
  show ?thesis by auto
qed

text \<open>\<open>main\<close> reports success whenever it returns, also when the program could not start.\<close>

lemma main_reports_success:
  "main env J during \<in> {Some 0, None} \<and>
    (application_new env J = Inl x \<and> is_std_exception x \<longrightarrow> main env J during = Some 0)"
  by (auto simp: main_def split: sum.splits)

end
