(* ===== verification/System.thy ===== *)
theory System
  imports Application_Props Timers_Props
begin

section \<open>The running program\<close>

text \<open>
  The application and its server together: the worker threads run the handlers of signals, of the
  acceptor and of all sessions, until the event loop is stopped. A hangup replaces the
  configuration that later accepts read. An accept reads it three times, in the constructors of
  \<open>Session\<close>, \<open>Reader\<close> and \<open>Writer\<close>, and hangups may be handled by another worker in between: \<open>SY_accept\<close>
  is an accept with the hangups between its first and second and its second and third read. Each
  replacement is taken as one step. A worker that is in the middle of an accept handler when another
  one stops the event loop still finishes it.
\<close>

datatype system_event =
    SY_signal file_system signal
  | SY_server server_event
  | SY_accept "string option" "(string \<times> u16) res" "file_system list" "file_system list"

definition hangups ::
  "('v, 'o) json_ops \<Rightarrow> file_system list \<Rightarrow> 'o application \<Rightarrow> 'o application res"
where
  "hangups J fss = deliver_signals J (map (\<lambda>fs. (fs, SIGHUP)) fss)"

inductive system_step ::
  "bool \<Rightarrow> endian \<Rightarrow> archive_reader \<Rightarrow> ('v, 'o) json_ops \<Rightarrow>
     'o application \<Rightarrow> system_event \<Rightarrow> 'o application \<Rightarrow> bool"
  for ow :: bool and e :: endian and D :: archive_reader and J :: "('v, 'o) json_ops"
where
  signal: "\<not> app_io_stopped app \<Longrightarrow> deliver_signal J (fs, signo) app = Inr app' \<Longrightarrow>
    system_step ow e D J app (SY_signal fs signo) app'"
| handler: "\<not> app_io_stopped app \<Longrightarrow>
    server_step ow e D J (same_config (app_config app)) (app_server app) ev s' \<Longrightarrow>
    system_step ow e D J app (SY_server ev) (app\<lparr>app_server := s'\<rparr>)"
| reloading: "\<not> app_io_stopped app \<Longrightarrow> hangups J fss1 app = Inr app1 \<Longrightarrow> hangups J fss2 app1 = Inr app2 \<Longrightarrow>
    server_step ow e D J \<lparr>cfg_session = app_config app, cfg_reader = app_config app1, cfg_writer = app_config app2\<rparr>
      (app_server app) (SE_accept err peer) s' \<Longrightarrow>
    system_step ow e D J app (SY_accept err peer fss1 fss2) (app2\<lparr>app_server := s'\<rparr>)"
| finish: "app_io_stopped app \<Longrightarrow>
    server_step ow e D J (same_config (app_config app)) (app_server app) (SE_insert i) s' \<Longrightarrow>
    system_step ow e D J app (SY_server (SE_insert i)) (app\<lparr>app_server := s'\<rparr>)"

definition started_app :: "'o application \<Rightarrow> bool" where
  "started_app app \<longleftrightarrow> app_waits app = 1 \<and> \<not> app_io_stopped app \<and> started_server (app_server app)"

fun server_events :: "system_event \<Rightarrow> server_event list" where
  "server_events (SY_server ev) = [ev]"
| "server_events (SY_accept err peer _ _) = [SE_accept err peer]"
| "server_events (SY_signal _ _) = []"

text \<open>The configurations the constructors of an accept find.\<close>

fun configs_read :: "('v, 'o) json_ops \<Rightarrow> 'o application \<Rightarrow> system_event \<Rightarrow> 'o config_reads" where
  "configs_read J app (SY_accept _ _ fss1 fss2) =
     \<lparr>cfg_session = app_config app, cfg_reader = reloads J fss1 (app_config app),
      cfg_writer = reloads J fss2 (reloads J fss1 (app_config app))\<rparr>"
| "configs_read J app _ = same_config (app_config app)"

subsection \<open>What a signal does to the server\<close>

lemma deliver_signal_cases:
  assumes "deliver_signal J (fs, signo) app = Inr app'"
  obtains (ignored) "app_waits app = 0" "app' = app"
  | (reloaded) cfg where "0 < app_waits app" "signo = SIGHUP" "app' = app\<lparr>app_config := cfg\<rparr>"
  | (stopped) "0 < app_waits app" "signo \<noteq> SIGHUP" "app_io_stopped app'"
      "app_server app' = server_stop (app_server app)"
proof (cases "app_waits app = 0")
  case True
  with assms show thesis by (intro ignored) (simp_all add: deliver_signal_def)
next
  case False
  show thesis
  proof (cases "signo = SIGHUP")
    case True
    have same: "app\<lparr>app_waits := Suc (app_waits app - Suc 0)\<rparr> = app" using False by simp
    show thesis
    proof (cases "config_reload J fs (app_config app)")
      case (Inl x)
      then have "app' = app\<lparr>app_config := app_config app\<rparr>"
        using assms False True same
        by (auto simp: deliver_signal_def signal_handler_def do_await_stop_def split: if_splits)
      with False True show thesis by (intro reloaded [of "app_config app"]) simp_all
    next
      case (Inr r)
      then have "app' = app\<lparr>app_config := snd r\<rparr>"
        using assms False True
        by (cases r) (auto simp: deliver_signal_def signal_handler_def do_await_stop_def)
      with False True show thesis by (intro reloaded [of "snd r"]) simp_all
    qed
  next
    case stop: False
    have "app' = app_stop (app\<lparr>app_waits := app_waits app - 1\<rparr>)"
      using assms False stop by (cases signo) (simp_all add: deliver_signal_def signal_handler_def)
    then show thesis using False stop
      by (intro stopped) (simp_all add: app_stop_def app_logs_def Let_def)
  qed
qed

lemma hangups_app:
  assumes "hangups J fss app = Inr app'" and "app_waits app = 1"
  shows "app' = app\<lparr>app_config := reloads J fss (app_config app)\<rparr>"
  using assms
proof (induction fss arbitrary: app)
  case (Cons fs fss)
  obtain app1 where s: "deliver_signal J (fs, SIGHUP) app = Inr app1" and r: "hangups J fss app1 = Inr app'"
    using Cons.prems(1) by (auto simp: hangups_def rbind_eq_Inr)
  have same: "app\<lparr>app_waits := Suc 0\<rparr> = app" using Cons.prems(2) by simp
  have app1: "app1 = app\<lparr>app_config := case config_reload J fs (app_config app) of Inr (ok, cfg') \<Rightarrow> cfg' | Inl _ \<Rightarrow> app_config app\<rparr>"
    using s Cons.prems(2) same
    by (auto simp: deliver_signal_def signal_handler_def do_await_stop_def split: sum.splits if_splits)
  show ?case using Cons.IH [OF r] Cons.prems(2) by (simp add: app1)
qed (simp add: hangups_def)

lemma hangups_keep:
  assumes "hangups J fss app = Inr app'"
  shows "app_server app' = app_server app" "app_waits app' = app_waits app"
    "app_io_stopped app' = app_io_stopped app"
  using assms
proof (induction fss arbitrary: app)
  case (Cons fs fss)
  {
    case 1
    then obtain app1 where s: "deliver_signal J (fs, SIGHUP) app = Inr app1" and r: "hangups J fss app1 = Inr app'"
      by (auto simp: hangups_def rbind_eq_Inr)
    show ?case using Cons.IH(1) [OF r] s by (auto elim: deliver_signal_cases)
  next
    case 2
    then obtain app1 where s: "deliver_signal J (fs, SIGHUP) app = Inr app1" and r: "hangups J fss app1 = Inr app'"
      by (auto simp: hangups_def rbind_eq_Inr)
    show ?case using Cons.IH(2) [OF r] s by (auto elim: deliver_signal_cases)
  next
    case 3
    then obtain app1 where s: "deliver_signal J (fs, SIGHUP) app = Inr app1" and r: "hangups J fss app1 = Inr app'"
      by (auto simp: hangups_def rbind_eq_Inr)
    show ?case using Cons.IH(3) [OF r] s by (auto elim: deliver_signal_cases)
  }
qed (simp_all add: hangups_def)

lemma system_server_step:
  assumes "system_step ow e D J app x app'"
  obtains (same) "app_server app' = app_server app" "server_events x = []"
  | (closed) "app_server app' = server_stop (app_server app)" "server_events x = []" "app_io_stopped app'"
  | (moved) cfgs ev where "server_step ow e D J cfgs (app_server app) ev (app_server app')"
      "server_events x = [ev]" "app_waits app = 1 \<Longrightarrow> cfgs = configs_read J app x"
  using assms
proof cases
  case (signal fs signo)
  from signal(3) show thesis
    by (cases rule: deliver_signal_cases) (use signal(1) in \<open>auto intro: same closed\<close>)
next
  case (handler ev s')
  then show thesis by (intro moved) simp_all
next
  case (reloading fss1 app1 fss2 app2 err peer s')
  let ?cfgs = "\<lparr>cfg_session = app_config app, cfg_reader = app_config app1, cfg_writer = app_config app2\<rparr>"
  have "app_config app1 = reloads J fss1 (app_config app)" "app_config app2 = reloads J fss2 (app_config app1)"
    if "app_waits app = 1"
    using hangups_app [OF reloading(4) that] hangups_app [OF reloading(5)] hangups_keep(2) [OF reloading(4)] that
    by simp_all
  then show thesis using reloading(1,2,6) by (intro moved [of ?cfgs "SE_accept err peer"]) simp_all
next
  case (finish i s')
  then show thesis by (intro moved) simp_all
qed

subsection \<open>Invariants over reloads\<close>

definition system_inv :: "u64 \<Rightarrow> 'o application \<Rightarrow> bool" where
  "system_inv m app \<longleftrightarrow>
     (\<exists>es. count_inv m es (app_server app)) \<and> (\<exists>es. rooted_inv es (app_server app))"

lemma count_inv_stop: "count_inv m es s \<Longrightarrow> count_inv m es (server_stop s)"
  by (auto simp: count_inv_def server_stop_def)

lemma rooted_inv_stop: "rooted_inv es s \<Longrightarrow> rooted_inv es (server_stop s)"
  by (simp add: rooted_inv_def server_stop_def)

lemma system_inv_step:
  assumes "system_inv m app" and "system_step ow e D J app x app'"
  shows "system_inv m app'"
  using assms(2)
proof (cases rule: system_server_step)
  case same
  then show ?thesis using assms(1) by (simp add: system_inv_def)
next
  case closed
  then show ?thesis using assms(1) by (auto simp: system_inv_def intro: count_inv_stop rooted_inv_stop)
next
  case (moved cfgs ev)
  then show ?thesis using assms(1) by (auto simp: system_inv_def intro: count_inv_step rooted_inv_step)
qed

interpretation system: safe_machine
  "system_step ow e D J" "\<lambda>app. started_app app \<and> max_sessions (app_server app) = m" "\<lambda>_. system_inv m" for ow e D J m
proof
  show "started_app app \<and> max_sessions (app_server app) = m \<Longrightarrow> system_inv m app" for app
    using counting.inv_start [of "app_server app" m] rooting.inv_start [of "app_server app"]
    by (auto simp: started_app_def system_inv_def)
  show "system_inv m app \<Longrightarrow> system_step ow e D J app x app' \<Longrightarrow> system_inv m app'" for app x app'
    by (rule system_inv_step)
qed

text \<open>While the event loop runs, one wait for signals is pending.\<close>

definition waits_while_running :: "'o application \<Rightarrow> bool" where
  "waits_while_running app \<longleftrightarrow> (\<not> app_io_stopped app \<longrightarrow> app_waits app = 1)"

interpretation running: safe_machine "system_step ow e D J" started_app "\<lambda>_. waits_while_running" for ow e D J
proof
  show "started_app app \<Longrightarrow> waits_while_running app" for app
    by (simp add: started_app_def waits_while_running_def)
  show "waits_while_running app'" if "waits_while_running app" "system_step ow e D J app x app'" for app x app'
    using that(2)
  proof cases
    case (signal fs signo)
    from signal(3) show ?thesis using that(1)
      by (cases rule: deliver_signal_cases) (auto simp: waits_while_running_def)
  next
    case (reloading fss1 app1 fss2 app2 err peer s')
    have "app_waits app2 = app_waits app" "app_io_stopped app2 = app_io_stopped app"
      using hangups_keep [OF reloading(4)] hangups_keep [OF reloading(5)] by simp_all
    then show ?thesis using that(1) reloading(2) by (simp add: waits_while_running_def)
  qed (use that(1) in \<open>simp_all add: waits_while_running_def\<close>)
qed

subsection \<open>The configuration of a session\<close>

fun timeout_key :: "timer_id \<Rightarrow> string" where
  "timeout_key Idle_timer = ''timeouts.idle_timeout_seconds''"
| "timeout_key Read_timer = ''timeouts.read_timeout_seconds''"
| "timeout_key Write_timer = ''timeouts.write_timeout_seconds''"

fun timeout_default :: "timer_id \<Rightarrow> int" where
  "timeout_default Idle_timer = 300"
| "timeout_default Read_timer = 10"
| "timeout_default Write_timer = 10"

fun read_from :: "'o config_reads \<Rightarrow> timer_id \<Rightarrow> 'o config" where
  "read_from cfgs Idle_timer = cfg_session cfgs"
| "read_from cfgs Read_timer = cfg_reader cfgs"
| "read_from cfgs Write_timer = cfg_writer cfgs"

lemma made_seconds:
  assumes "made_session ow J cfgs = Inr c"
  shows "get_int J (read_from cfgs t) (timeout_key t) (timeout_default t) = Inr (seconds_of t c)"
proof -
  have "ow" using started_connection [OF assms] by blast
  then have "establish J cfgs = Inr (c\<lparr>in_sessions := True\<rparr>)"
    using assms by (auto simp: establish_def rbind_eq_Inr)
  then obtain i r w where "get_int J (cfg_session cfgs) ''timeouts.idle_timeout_seconds'' 300 = Inr i"
    "get_int J (cfg_reader cfgs) ''timeouts.read_timeout_seconds'' 10 = Inr r"
    "get_int J (cfg_writer cfgs) ''timeouts.write_timeout_seconds'' 10 = Inr w"
    and c: "c\<lparr>in_sessions := True\<rparr> = fresh_connection i r w"
    by (auto simp: establish_fresh)
  moreover have "seconds_of t (c\<lparr>in_sessions := True\<rparr>) = seconds_of t c" by (cases t) simp_all
  then have "seconds_of t c = seconds_of t (fresh_connection i r w)" by (simp add: c)
  ultimately show ?thesis by (cases t) (simp_all add: fresh_connection_def)
qed

lemma dispatch_seconds:
  assumes "rooted c" and "dispatch e D c ev = Inr c'"
  shows "seconds_of t c' = seconds_of t c"
proof -
  have o: "owned c" "on_close_set c" using assms(1) by (simp_all add: rooted_def)
  show ?thesis
    using assms o
    by (cases t; cases "alive c"; cases "(e, D, c, ev)" rule: dispatch.cases)
      (auto simp: handler_outcome rbind_eq_Inr Let_def begin_seconds split: if_splits option.splits list.splits)
qed

lemma session_fire_seconds:
  assumes "rooted c" and "session_fire b e D c ev = Inr c'"
  shows "seconds_of t c' = seconds_of t c"
proof -
  have "seconds_of t (complete ev c) = seconds_of t c" "seconds_of t (release d) = seconds_of t d" for d
    by (cases t; simp)+
  then show ?thesis
    using dispatch_seconds [OF rooted_complete [OF assms(1)], of e D ev] assms(2)
    unfolding session_fire_Inr by (cases b) auto
qed

text \<open>A session, once made, has the timeouts it was made with.\<close>

definition has_seconds :: "nat \<Rightarrow> (timer_id \<Rightarrow> int) \<Rightarrow> server \<Rightarrow> bool" where
  "has_seconds i n s \<longleftrightarrow> i < srv_next s \<and>
     (\<exists>c. srv_conns s i = Some c \<and> list_all (\<lambda>t. seconds_of t c = n t) timers)"

lemma has_seconds_iff:
  "has_seconds i n s \<longleftrightarrow> i < srv_next s \<and> (\<exists>c. srv_conns s i = Some c \<and> (\<forall>t. seconds_of t c = n t))"
proof -
  have "list_all P timers \<longleftrightarrow> (\<forall>t. P t)" for P by (auto simp: timers_def) (case_tac t; simp)
  then show ?thesis by (simp add: has_seconds_def)
qed

lemma has_seconds_step:
  assumes "has_seconds i n s" and "rooted_inv es s" and "server_step ow e D J cfgs s ev s'"
  shows "has_seconds i n s'"
  using assms(3)
proof (cases rule: server_stepE)
  case (conn j cev c c')
  then have "rooted c" using assms(2) by (auto simp: rooted_inv_def)
  then show ?thesis using assms(1) conn session_fire_seconds [OF _ conn(4)]
    by (auto simp: has_seconds_iff)
next
  case (inserted j)
  have "seconds_of t (c\<lparr>in_sessions := b\<rparr>) = seconds_of t c" for t b c by (cases t) simp_all
  then show ?thesis using assms(1) by (auto simp: has_seconds_iff inserted insert_session_def)
qed (use assms(1) in \<open>auto simp: has_seconds_iff server_stop_def\<close>)

lemma has_seconds_run:
  assumes "steps (system_step ow e D J) app fs app'" and "system_inv m app" and "has_seconds i n (app_server app)"
  shows "has_seconds i n (app_server app') \<and> system_inv m app'"
  using assms
proof (induction rule: steps.induct)
  case (steps_snoc app fs u x v)
  then have IH: "has_seconds i n (app_server u)" "system_inv m u" by simp_all
  from steps_snoc.hyps(2) have "has_seconds i n (app_server v)"
  proof (cases rule: system_server_step)
    case closed
    then show ?thesis using IH by (simp add: has_seconds_iff server_stop_def)
  next
    case (moved cfgs ev)
    then show ?thesis using IH has_seconds_step by (auto simp: system_inv_def)
  qed (use IH in simp)
  then show ?case using system_inv_step [OF IH(2) steps_snoc.hyps(2)] by simp
qed simp

lemma made_has_seconds:
  assumes "server_step ow e D J cfgs s ev s'" and "srv_conns s i = None" and "srv_conns s' i = Some c"
  shows "i < srv_next s' \<and> (\<forall>t. get_int J (read_from cfgs t) (timeout_key t) (timeout_default t) = Inr (seconds_of t c))"
proof -
  have en: "server_fire ow e D J cfgs s ev = Inr s'" using assms(1) by (simp add: server_step_iff)
  show ?thesis
  proof (cases ev)
    case (SE_accept err peer)
    then have "accept_begin ow J cfgs err peer (s\<lparr>srv_accepting := srv_accepting s - 1\<rparr>) = Inr s'" using en by simp
    then show ?thesis
    proof (cases rule: accept_begin_cases)
      case (accepted c1 m)
      then have "i = srv_next s" "c1 = c" using assms(2,3) by (auto split: if_splits)
      then show ?thesis using made_seconds [OF accepted(4)] accepted(5) by simp
    qed (use assms(2,3) in simp_all)
  next
    case (SE_insert j)
    then show ?thesis using en assms(2,3)
      by (auto simp: accept_end_def insert_session_def split: option.splits if_splits)
  next
    case (SE_conn j cev)
    then show ?thesis using en assms(2,3) by (auto simp: rbind_eq_Inr split: option.splits if_splits)
  next
    case SE_stop
    then show ?thesis using en assms(2,3) by (auto simp: server_stop_def)
  qed
qed

lemma made_accept:
  assumes "server_step ow e D J cfgs s ev s'" and "srv_conns s i = None" and "srv_conns s' i = Some c"
  shows "\<exists>peer. ev = SE_accept None peer"
  using assms(1)
  by (cases rule: server_stepE) (use assms(2,3) in \<open>auto simp: insert_session_def server_stop_def split: if_splits\<close>)

text \<open>C27: A reload spares what runs: in every run of the program, with signals between the handlers and
  within an accept, a session has, from its acceptance on and whatever is reloaded later, each
  timeout of the configuration that its constructor of \<open>Session\<close>, \<open>Reader\<close> or \<open>Writer\<close> found: the one
  loaded when it was accepted or, where hangups are handled between these constructors, the one they
  left; and the limit on sessions stays the one of the start. This holds for constructors with and
  without owners; without, as in the program, there is never a session.\<close>

theorem reload_spares_sessions:
  assumes "started_app app0" and "steps (system_step ow e D J) app0 es app"
    and "srv_conns (app_server app) i = None" and "system_step ow e D J app x app1"
    and "srv_conns (app_server app1) i = Some c1" and "steps (system_step ow e D J) app1 fs app2"
  shows "(\<exists>c2. srv_conns (app_server app2) i = Some c2 \<and>
      (\<forall>t. get_int J (read_from (configs_read J app x) t) (timeout_key t) (timeout_default t) =
        Inr (seconds_of t c2))) \<and>
    max_sessions (app_server app2) = max_sessions (app_server app0) \<and>
    srv_next (app_server app2) \<le> unat (max_sessions (app_server app0))"
proof -
  let ?m = "max_sessions (app_server app0)"
  have start: "started_app app0 \<and> max_sessions (app_server app0) = ?m" using assms(1) by simp
  have i1: "system_inv ?m app1" using system.inv_next [OF start assms(2,4)] .
  have w: "app_io_stopped app \<or> app_waits app = 1"
    using running.inv_steps [OF assms(1,2)] by (auto simp: waits_while_running_def)
  obtain cfgs ev where st: "server_step ow e D J cfgs (app_server app) ev (app_server app1)"
    and cfgs: "app_waits app = 1 \<Longrightarrow> cfgs = configs_read J app x" and ev: "server_events x = [ev]"
    using assms(4)
  proof (cases rule: system_server_step)
    case closed
    then show ?thesis using assms(3,5) by (simp add: server_stop_def)
  qed (use assms(3,5) that in simp_all)
  have made: "i < srv_next (app_server app1)"
    "\<And>t. get_int J (read_from cfgs t) (timeout_key t) (timeout_default t) = Inr (seconds_of t c1)"
    using made_has_seconds [OF st] assms(3,5) by blast+
  have "\<not> app_io_stopped app"
    using assms(4) st made_accept [OF st assms(3,5)] ev by cases auto
  then have cfgs: "cfgs = configs_read J app x" using w cfgs by blast
  have "has_seconds i (\<lambda>t. seconds_of t c1) (app_server app1)" using assms(5) made(1) by (simp add: has_seconds_iff)
  then have h: "has_seconds i (\<lambda>t. seconds_of t c1) (app_server app2)" and i2: "system_inv ?m app2"
    using has_seconds_run [OF assms(6) i1] by blast+
  from h obtain c2 where "srv_conns (app_server app2) i = Some c2" "\<forall>t. seconds_of t c2 = seconds_of t c1"
    by (auto simp: has_seconds_iff)
  then have "\<exists>c2. srv_conns (app_server app2) i = Some c2 \<and>
      (\<forall>t. get_int J (read_from (configs_read J app x) t) (timeout_key t) (timeout_default t) = Inr (seconds_of t c2))"
    using made(2) unfolding cfgs by (intro exI [where x = c2]) simp
  then show ?thesis using i2 by (auto simp: system_inv_def count_inv_def)
qed

subsection \<open>A concrete program\<close>

definition demo_app :: "(string \<times> jv) list application" where
  "demo_app = \<lparr>app_config = demo_config,
     app_params = \<lparr>pp_host = [], pp_port = 0, pp_database = [], pp_username = [], pp_password = []\<rparr>,
     app_logger = \<lparr>lg_file = None, lg_currentDate = [], lg_configLevel = Info, lg_configFile = [],
       lg_configIntervalSeconds = 0, lg_pathinfo = \<lparr>lp_path = [], lp_name = [], lp_extention = []\<rparr>\<rparr>,
     app_server = demo_server 1, app_work_guard = True, app_io_stopped = False, app_waits = 1, app_log = []\<rparr>"

definition demo_app_accepted :: "(string \<times> jv) list application" where
  "demo_app_accepted = demo_app\<lparr>app_server := demo_accepted 1\<rparr>"

lemma demo_app_facts:
  "started_app demo_app" "max_sessions (app_server demo_app) = 1"
  "srv_conns (app_server demo_app) 0 = None" "srv_conns (app_server demo_app_accepted) 0 = Some demo_new"
proof -
  show "started_app demo_app" using demo_server_started(1) [of 1] by (simp add: started_app_def demo_app_def)
qed (simp_all add: demo_app_def demo_app_accepted_def demo_accepted_def demo_server_def)

lemma demo_app_accept:
  "system_step True e D demo_json demo_app (SY_server (SE_accept None (Inr (''a'', 1)))) demo_app_accepted"
proof -
  have "server_step True e D demo_json (same_config (app_config demo_app)) (app_server demo_app)
      (SE_accept None (Inr (''a'', 1))) (demo_accepted 1)"
    using demo_accept [of 1 e D] by (simp add: demo_app_def)
  then show ?thesis unfolding demo_app_accepted_def by (intro handler) (simp add: demo_app_def)
qed

theorem reload_spares_sessions_witness:
  "\<exists>app. system_step True Little demo_archive demo_json demo_app_accepted (SY_signal (\<lambda>_. None) SIGHUP) app \<and>
     (\<exists>c. srv_conns (app_server app) 0 = Some c \<and> seconds_of Idle_timer c = 300)"
proof -
  let ?step = "system_step True Little demo_archive demo_json"
  have "\<not> app_io_stopped demo_app_accepted" by (simp add: demo_app_accepted_def demo_app_def)
  moreover have "deliver_signal demo_json (\<lambda>_. None, SIGHUP) demo_app_accepted = Inr demo_app_accepted"
    by (simp add: deliver_signal_def signal_handler_def config_reload_def config_load_def do_await_stop_def
        demo_app_accepted_def demo_app_def)
  ultimately have st: "?step demo_app_accepted (SY_signal (\<lambda>_. None) SIGHUP) demo_app_accepted" by (rule signal)
  have "get_int demo_json (app_config demo_app) (timeout_key Idle_timer) 300 = Inr 300"
    by (simp add: demo_app_def demo_get_int)
  then have "\<exists>c. srv_conns (app_server demo_app_accepted) 0 = Some c \<and> seconds_of Idle_timer c = 300"
    using reload_spares_sessions [OF demo_app_facts(1) steps_nil demo_app_facts(3) demo_app_accept
        demo_app_facts(4) steps_single [where step = ?step, OF st]]
    by (auto dest: spec [where x = Idle_timer])
  with st show ?thesis by blast
qed

subsection \<open>Stopping\<close>

text \<open>Once the event loop is stopped, at most the end of one accept handler runs.\<close>

lemma stopped_step:
  assumes "app_io_stopped app"
  shows "system_step ow e D J app x app' \<longleftrightarrow>
    (\<exists>i. srv_inserting (app_server app) = Some i \<and> x = SY_server (SE_insert i) \<and>
      app' = app\<lparr>app_server := accept_end (app_server app)\<rparr>)"
proof
  assume "system_step ow e D J app x app'"
  then show "\<exists>i. srv_inserting (app_server app) = Some i \<and> x = SY_server (SE_insert i) \<and>
      app' = app\<lparr>app_server := accept_end (app_server app)\<rparr>"
    by cases (use assms in \<open>auto simp: server_step_iff\<close>)
next
  assume "\<exists>i. srv_inserting (app_server app) = Some i \<and> x = SY_server (SE_insert i) \<and>
      app' = app\<lparr>app_server := accept_end (app_server app)\<rparr>"
  then show "system_step ow e D J app x app'"
    using assms by (auto intro!: finish simp: server_step_iff)
qed

lemma stopped_run:
  assumes "steps (system_step ow e D J) app gs app'" and "app_io_stopped app"
  obtains (nothing) "gs = []" "app' = app"
  | (insert) i where "srv_inserting (app_server app) = Some i" "gs = [SY_server (SE_insert i)]"
      "app' = app\<lparr>app_server := accept_end (app_server app)\<rparr>"
proof (cases gs)
  case Nil
  with assms(1) have "app' = app" by (simp add: steps_Nil_iff)
  with Nil show thesis by (rule nothing)
next
  case (Cons x gs1)
  then obtain app1 where st: "system_step ow e D J app x app1" and run: "steps (system_step ow e D J) app1 gs1 app'"
    using assms(1) by (auto elim: steps_ConsE)
  obtain i where i: "srv_inserting (app_server app) = Some i" "x = SY_server (SE_insert i)"
    "app1 = app\<lparr>app_server := accept_end (app_server app)\<rparr>"
    using st by (auto simp: stopped_step [OF assms(2)])
  have dead: "app_io_stopped app1" "srv_inserting (app_server app1) = None"
    using i assms(2) by (simp_all add: accept_end_def do_accept_def)
  have "gs1 = []"
    using run by (cases gs1) (auto elim!: steps_ConsE simp: stopped_step [OF dead(1)] dead(2))
  moreover from this have "app' = app1" using run by (simp add: steps_Nil_iff)
  ultimately show thesis using i Cons by (intro insert [of i]) simp_all
qed

text \<open>C28: Stopping abandons the sessions: the first terminating signal closes the acceptor and stops the
  event loop; nothing runs after it but the end of an accept handler that another worker is in;
  every session is left as it is, its socket open and its queued packets unsent, but for being
  inserted in the set.\<close>

theorem shutdown_abandons_sessions:
  assumes "started_app app0" and "steps (system_step ow e D J) app0 es app" and "signo \<noteq> SIGHUP"
    and "system_step ow e D J app (SY_signal fs signo) app1" and "steps (system_step ow e D J) app1 gs app2"
  shows "app_io_stopped app1 \<and> \<not> srv_open (app_server app1) \<and>
    srv_conns (app_server app1) = srv_conns (app_server app) \<and>
    (gs = [] \<and> app2 = app1 \<or>
     (\<exists>i. srv_inserting (app_server app) = Some i \<and> gs = [SY_server (SE_insert i)] \<and> app_io_stopped app2 \<and>
       srv_conns (app_server app2) = srv_conns (insert_session i (app_server app))))"
proof -
  have w: "waits_while_running app" using running.inv_steps [OF assms(1,2)] .
  from assms(4) have stop: "app_io_stopped app1 \<and> app_server app1 = server_stop (app_server app)"
  proof cases
    case signal
    from signal(2) show ?thesis
      by (cases rule: deliver_signal_cases) (use signal(1) w assms(3) in \<open>auto simp: waits_while_running_def\<close>)
  qed
  then have "app_io_stopped app1" ..
  with assms(5) show ?thesis
  proof (cases rule: stopped_run)
    case (insert i)
    then show ?thesis using stop
      by (simp add: server_stop_def srv_logs_def accept_end_def do_accept_def insert_session_def)
  qed (use stop in \<open>simp add: server_stop_def\<close>)
qed

theorem shutdown_abandons_sessions_witness:
  "\<exists>app1 app2. system_step True Little demo_archive demo_json demo_app_accepted (SY_signal (\<lambda>_. None) SIGTERM) app1 \<and>
     system_step True Little demo_archive demo_json app1 (SY_server (SE_insert 0)) app2 \<and>
     srv_conns (app_server app2) 0 = Some (demo_new\<lparr>in_sessions := True\<rparr>) \<and> sock_open demo_new"
proof -
  let ?step = "system_step True Little demo_archive demo_json"
  let ?app = "app_stop (demo_app_accepted\<lparr>app_waits := 0\<rparr>)"
  have "\<not> app_io_stopped demo_app_accepted" by (simp add: demo_app_accepted_def demo_app_def)
  moreover have "deliver_signal demo_json (\<lambda>_. None, SIGTERM) demo_app_accepted = Inr ?app"
    by (simp add: deliver_signal_def signal_handler_def demo_app_accepted_def demo_app_def)
  ultimately have st: "?step demo_app_accepted (SY_signal (\<lambda>_. None) SIGTERM) ?app" by (rule signal)
  have "app_io_stopped ?app" "srv_inserting (app_server ?app) = Some 0"
    by (simp_all add: app_stop_def app_logs_def server_stop_def srv_logs_def demo_app_accepted_def demo_accepted_def demo_server_def)
  then obtain app2 where 2: "?step ?app (SY_server (SE_insert 0)) app2" by (simp add: stopped_step)
  have "srv_conns (app_server app2) 0 = srv_conns (insert_session 0 (app_server demo_app_accepted)) 0"
    using shutdown_abandons_sessions [OF demo_app_facts(1) steps_single [where step = ?step, OF demo_app_accept] _ st
        steps_single [where step = ?step, OF 2]] by auto
  then have "srv_conns (app_server app2) 0 = Some (demo_new\<lparr>in_sessions := True\<rparr>)"
    using demo_app_facts(4) by (simp add: insert_session_def)
  moreover have "sock_open demo_new" by (simp add: demo_new_def fresh_connection_def)
  ultimately show ?thesis using st 2 by blast
qed

end
