(* ===== verification/Program.thy ===== *)
theory Program
  imports System
begin

section \<open>The program from its start\<close>

text \<open>
  What the application hands to its workers, and what they do with it: the runs of the system that
  begin where the constructor of \<open>Application\<close> and \<open>run\<close> have got to, with the constructors of the
  sessions as they are, without owners.
\<close>

definition serving :: "'o application \<Rightarrow> 'o application" where
  "serving app =
     (let app1 = app_logs Info ''Running server...'' (app_logs Alert ''program started'' app) in
      app1\<lparr>app_server := start_accept (app_server app1)\<rparr>)"

lemma app_run_serving:
  "app_run env J during app =
     rbind (start_workers (env_spawn env) J (app_config (serving app)))
       (\<lambda>joined. Inr (app_logs Info ''Server stopped'' (during (serving app)), joined))"
  by (simp add: app_run_def serving_def Let_def)

lemma serving_started:
  assumes "application_new env J = Inr app"
  shows "started_app (serving app)"
proof -
  obtain cfg0 params cfg logger0 logger server calls where
    "server_new (env_address env) (env_net env) J cfg = Inr (server, calls)"
    "app = do_await_stop \<lparr>app_config = cfg, app_params = params, app_logger = logger,
        app_server = server, app_work_guard = True, app_io_stopped = False, app_waits = 0, app_log = []\<rparr>"
    using assms by (rule application_newE)
  then show ?thesis
    by (auto simp: started_app_def serving_def do_await_stop_def app_logs_def dest: server_new_started)
qed

interpretation nobody: safe_machine "system_step False e D J" started_app "\<lambda>_ app. serves_nobody (app_server app)" for e D J
proof
  show "started_app app \<Longrightarrow> serves_nobody (app_server app)" for app
    unfolding started_app_def by (blast intro: unowned.inv_start)
  show "serves_nobody (app_server app')" if "serves_nobody (app_server app)" "system_step False e D J app x app'" for app x app'
    using that(2)
  proof (cases rule: system_server_step)
    case closed
    then show ?thesis using that(1) by (simp add: serves_nobody_def server_stop_def)
  next
    case (moved cfgs ev)
    then show ?thesis using that(1) unowned.inv_step by blast
  qed (use that(1) in simp)
qed

text \<open>C19: The program serves nobody: as the constructors of its sessions have no owner, in every run from
  the start of the application, whatever signals and reloads there are, no connection is ever set up,
  counted or entered in the set of sessions, and in every state of every run the handler of an accept
  that would be admitted throws \<open>bad_weak_ptr\<close>, if the peer is still there and the configured idle
  timeout is an integer; the exception leaves \<^verbatim>\<open>io_context::run\<close> on a thread that does not catch it,
  so the first connection ends the process.\<close>

theorem program_serves_nobody:
  assumes "application_new env J = Inr app0" and "steps (system_step False e D J) (serving app0) es app"
  shows "srv_conns (app_server app) = Map.empty \<and> sessions (app_server app) = {} \<and>
    active_connections (app_server app) = 0 \<and>
    (srv_open (app_server app) \<and> 0 < max_sessions (app_server app) \<longrightarrow>
      server_fire False e D J (same_config (app_config app)) (app_server app) (SE_accept None peer) =
        rbind peer (\<lambda>_. rbind (get_int J (app_config app) ''timeouts.idle_timeout_seconds'' 300)
          (\<lambda>_. Inl Bad_weak_ptr)))"
proof -
  have s: "serves_nobody (app_server app)" using nobody.inv_steps [OF serving_started [OF assms(1)] assms(2)] .
  then show ?thesis using accept_unowned [OF s, of e D J "same_config (app_config app)" peer]
    by (auto simp: serves_nobody_def sessions_def simp del: server_fire.simps)
qed

theorem program_serves_nobody_witness:
  "\<exists>app. application_new repo_env repo_json = Inr app \<and>
     server_fire False Little demo_archive repo_json (same_config (app_config (serving app))) (app_server (serving app))
       (SE_accept None (Inr (''a'', 1))) = Inl Bad_weak_ptr"
proof -
  obtain app where app: "application_new repo_env repo_json = Inr app" "app_config app = repo_config"
    "max_sessions (app_server app) = 10000" by (rule repo_starts)
  have "srv_open (app_server (serving app))"
    using serving_started [OF app(1)] by (simp add: started_app_def started_server_def)
  moreover have "max_sessions (app_server (serving app)) = 10000" "app_config (serving app) = repo_config"
    using app(2,3) by (simp_all add: serving_def app_logs_def start_accept_def do_accept_def Let_def)
  moreover have "get_int repo_json repo_config ''timeouts.idle_timeout_seconds'' 300 = Inr 300"
    by (simp add: get_int_def find_key_def str_find_def repo_json_def repo_config_def config_json_def
        to_int32_def signed_take_bit_int_eq_self)
  ultimately have "server_fire False Little demo_archive repo_json (same_config (app_config (serving app))) (app_server (serving app))
       (SE_accept None (Inr (''a'', 1))) = Inl Bad_weak_ptr"
    using program_serves_nobody [OF app(1) steps_nil, where e = Little and D = demo_archive and peer = "Inr (''a'', 1)"]
    by simp
  with app(1) show ?thesis by blast
qed

end
