(* ===== verification/Failures.thy ===== *)
theory Failures
  imports Stream_Run System
begin

section \<open>What can go wrong\<close>

text \<open>
  Every error of the handlers of a connection and of the server, exactly: an exception that leaves
  a handler ends the process, and the use of a destroyed object has no meaning in C++.
\<close>

subsection \<open>The handlers of a connection\<close>

text \<open>The handlers that use the socket; a posted packet is written when it is the only one queued.\<close>

fun uses_socket :: "connection \<Rightarrow> event \<Rightarrow> bool" where
  "uses_socket c (Ev_write_packet b) \<longleftrightarrow> True"
| "uses_socket c (Ev_post b) \<longleftrightarrow> queue c = []"
| "uses_socket c ev \<longleftrightarrow> socket_result ev \<noteq> None"

abbreviation destroyed :: cpp_exn where
  "destroyed \<equiv> Undefined_behaviour ''socket of a destroyed session''"

definition malformed :: "endian \<Rightarrow> connection \<Rightarrow> event \<Rightarrow> cpp_exn \<Rightarrow> bool" where
  "malformed e c ev x \<longleftrightarrow> sock_open c \<and>
     (case ev of
        Ev_read_body n None body \<Rightarrow> n = length body \<and> \<not> acceptable e (frame_encode body) \<and>
          packet_from_bytes e (frame_encode body) = Inl x
      | _ \<Rightarrow> False)"

lemma dispatch_dead:
  assumes "\<not> alive c" and "owned c" and "on_close_set c"
  shows "dispatch e D c ev = Inl x \<longleftrightarrow> uses_socket c ev \<and> x = destroyed"
  using assms
  by (cases "(e, D, c, ev)" rule: dispatch.cases) (auto simp: handler_outcome Let_def split: option.splits)

lemma dispatch_defined:
  assumes "alive c" and "owned c" and "on_close_set c"
    and "\<And>b err. ev = Ev_write b err \<Longrightarrow> queue c \<noteq> []"
    and "\<And>n data. ev = Ev_read_body n None data \<Longrightarrow> \<not> sock_open c"
  shows "dispatch e D c ev \<noteq> Inl x"
  using assms
  by (cases "(e, D, c, ev)" rule: dispatch.cases)
    (auto simp: handler_outcome Let_def split: option.splits list.splits)

lemma fire_Inl: "fire e D c ev = Inl x \<longleftrightarrow> dispatch e D (complete ev c) ev = Inl x"
  by (auto simp: fire_def rbind_eq_Inl)

lemma uses_socket_complete: "uses_socket (complete ev c) ev' = uses_socket c ev'"
  by (cases "(c, ev')" rule: uses_socket.cases) simp_all

lemma fire_fails_iff:
  assumes "life_ok c" and "read_ok c" and "write_ok c" and "enabled c ev"
  shows "fire e D c ev = Inl x \<longleftrightarrow> malformed e c ev x \<or> \<not> alive c \<and> uses_socket c ev \<and> x = destroyed"
proof -
  let ?c = "complete ev c"
  have o: "owned ?c" "on_close_set ?c" "sock_open c \<Longrightarrow> alive c"
    using assms(1) by (auto simp: life_ok_def)
  consider (dead) "\<not> alive c"
    | (body) data where "alive c" "sock_open c" "ev = Ev_read_body (length data) None data"
    | (other) "alive c" "\<And>n data. ev = Ev_read_body n None data \<Longrightarrow> \<not> sock_open c"
    using assms(4) by (cases ev) (force simp: enabled_def)+
  then show ?thesis
  proof cases
    case dead
    then show ?thesis using o dispatch_dead [of ?c e D ev x]
      by (auto simp: fire_Inl uses_socket_complete malformed_def)
  next
    case (body data)
    then have mem: "Op_read_body (length data) \<in># pending c" using assms(4) by (simp add: enabled_def)
    have "length data \<le> 1049600"
      using assms(2) reads_only [OF assms(2), of "Op_read_body (length data)"] mem
      by (auto simp: read_ok_def reads_def word_le_nat_alt)
    then have small: "length (frame_encode data) < 4294967296" by (simp add: frame_encode_def)
    have "fire e D c ev = Inl x \<longleftrightarrow> packet_from_bytes e (frame_encode data) = Inl x"
      unfolding body(3) body_fire [OF assms(1) body(2) assms(2) mem] by (auto simp: rbind_eq_Inl)
    then show ?thesis using body acceptable_frame [OF small, of e] by (auto simp: malformed_def)
  next
    case other
    have "queue ?c \<noteq> []" if "ev = Ev_write b err" for b err
      using assms(3) enabled_sorted(4) [of c b err] assms(4) that by (auto simp: write_ok_def)
    then have "fire e D c ev \<noteq> Inl x"
      unfolding fire_Inl using other o(1,2) by (intro dispatch_defined) simp_all
    then show ?thesis using other by (auto simp: malformed_def split: event.splits option.splits)
  qed
qed

text \<open>C16: The errors of a handler are these two: whatever completes next on a connection, in any run, its
  handler throws exactly when a whole frame was read whose content is not a well-formed packet, which
  is \<open>invalid_argument\<close> and ends the process, or when it uses the socket of a session that was
  destroyed, which is undefined and needs an expiry of the idle timer before. Every other
  completion, with an error or without, is handled.\<close>

theorem handler_fails_iff:
  assumes "fresh c0" and "steps (conn_step e D) c0 es c" and "enabled c ev"
  shows "fire e D c ev = Inl x \<longleftrightarrow>
    (\<exists>msg. malformed e c ev x \<and> x = Invalid_argument msg) \<or>
    (\<not> alive c \<and> idle_expired es \<and> uses_socket c ev \<and> x = destroyed)"
proof -
  note f = run_facts [OF assms(1,2)]
  have "malformed e c ev x \<Longrightarrow> \<exists>msg. x = Invalid_argument msg"
    by (auto simp: malformed_def dest: packet_from_bytes_exn split: event.splits option.splits)
  moreover have "\<not> alive c \<Longrightarrow> idle_expired es" using f(6) by (auto simp: waits_inv_def)
  ultimately show ?thesis unfolding fire_fails_iff [OF f(1-3) assms(3)] by blast
qed

lemma demo_malformed:
  assumes "sock_open c"
  obtains msg where "malformed Little c (Ev_read_body 1 None [0]) (Invalid_argument msg)"
proof -
  have no: "\<not> acceptable Little (frame_encode [0])" by (simp add: acceptable_def frame_encode_def)
  have "length (frame_encode [0]) < 4294967296" by (simp add: frame_encode_def)
  then obtain x where x: "packet_from_bytes Little (frame_encode [0]) = Inl x"
    using no acceptable_frame [of "frame_encode [0]" Little] by (auto simp: isl_def)
  with packet_from_bytes_exn [OF x] no assms that show thesis by (auto simp: malformed_def)
qed

theorem handler_fails_iff_witness:
  "\<exists>c. steps (conn_step Little demo_archive) demo_connection [Ev_read_length None (be_bytes 4 1)] c \<and>
     (\<exists>msg. fire Little demo_archive c (Ev_read_body 1 None [0]) = Inl (Invalid_argument msg))"
proof -
  have l: "life_ok demo_connection" by (rule life_fresh [OF demo_facts(1)])
  let ?c = "begin_body (of_nat 1) (complete (Ev_read_length None (be_bytes 4 1)) demo_connection)"
  let ?step = "conn_step Little demo_archive" and ?ev = "Ev_read_body 1 None [0::u8]"
  have st: "?step demo_connection (Ev_read_length None (be_bytes 4 1)) ?c"
    using length_step [OF l demo_facts(2,3), of 1 Little demo_archive] by simp
  have en: "enabled ?c ?ev" by (simp add: enabled_def begin_body_def)
  obtain msg where "malformed Little ?c ?ev (Invalid_argument msg)"
    by (rule demo_malformed [of ?c]) (simp_all add: begin_body_def demo_facts)
  then have "fire Little demo_archive ?c ?ev = Inl (Invalid_argument msg)"
    using handler_fails_iff [OF demo_facts(1) steps_single [of ?step, OF st] en, of "Invalid_argument msg"] by blast
  then show ?thesis using steps_single [of ?step, OF st] by blast
qed

subsection \<open>The handlers of the server\<close>

fun first_error :: "'a res list \<Rightarrow> cpp_exn option" where
  "first_error [] = None"
| "first_error (Inl x # rs) = Some x"
| "first_error (Inr a # rs) = first_error rs"

text \<open>The timeouts, in the order in which the constructors of session, reader and writer read them.\<close>

definition timeouts :: "('v, 'o) json_ops \<Rightarrow> 'o config_reads \<Rightarrow> int res list" where
  "timeouts J cfgs = map (\<lambda>t. get_int J (read_from cfgs t) (timeout_key t) (timeout_default t)) timers"

text \<open>What the making of a session throws; without an owner it never gets beyond the first constructor.\<close>

definition constructor_error :: "bool \<Rightarrow> ('v, 'o) json_ops \<Rightarrow> 'o config_reads \<Rightarrow> cpp_exn option" where
  "constructor_error has_owner J cfgs =
     (if has_owner then first_error (timeouts J cfgs)
      else first_error [get_int J (cfg_session cfgs) ''timeouts.idle_timeout_seconds'' 300, Inl Bad_weak_ptr])"

lemma make_fails_iff:
  "made_session ow J cfgs = Inl x \<longleftrightarrow> constructor_error ow J cfgs = Some x"
proof (cases "get_int J (cfg_session cfgs) ''timeouts.idle_timeout_seconds'' 300")
  case idle: (Inr i)
  show ?thesis
  proof (cases ow)
    case True
    show ?thesis
    proof (cases "get_int J (cfg_reader cfgs) ''timeouts.read_timeout_seconds'' 10")
      case read: (Inr r)
      then show ?thesis using idle True
        by (cases "get_int J (cfg_writer cfgs) ''timeouts.write_timeout_seconds'' 10")
          (simp_all add: constructor_error_def timeouts_def timers_def establish_defs)
    qed (simp add: constructor_error_def timeouts_def timers_def establish_defs idle True)
  qed (auto simp: constructor_error_def session_body_def check_idle_timer_def shared_from_this_def idle Let_def)
qed (auto simp: constructor_error_def timeouts_def timers_def establish_defs)

lemma accept_fails_iff:
  "accept_begin ow J cfgs err peer s = Inl x \<longleftrightarrow>
     srv_open s \<and> err = None \<and> active_connections s < max_sessions s \<and>
     (peer = Inl x \<or> \<not> isl peer \<and> constructor_error ow J cfgs = Some x)"
proof -
  have "rbind (session_body ow J (cfg_session cfgs)) (\<lambda>s. rbind (start_body ow J cfgs s) (\<lambda>c. Inr (f c))) = Inl x \<longleftrightarrow>
      made_session ow J cfgs = Inl x" for f :: "connection \<Rightarrow> server"
    by (auto simp: rbind_eq_Inl rbind_eq_Inr)
  then show ?thesis
    unfolding make_fails_iff [symmetric]
    by (cases err; cases peer) (auto simp: accept_begin_def add_connection_def Let_def not_le split: prod.splits)
qed

text \<open>Every session of a run of the program is a connection that has gone through its own events.\<close>

definition events_of_session :: "nat \<Rightarrow> system_event list \<Rightarrow> event list" where
  "events_of_session i es = session_events i (concat (map server_events es))"

interpretation history: safe_machine "system_step ow e D J" started_app
  "\<lambda>es app. sessions_inv e D (concat (map server_events es)) (app_server app)" for ow e D J
proof
  show "started_app app \<Longrightarrow> sessions_inv e D (concat (map server_events [])) (app_server app)" for app
    by (simp add: started_app_def sessions_inv_start)
  show "sessions_inv e D (concat (map server_events (es @ [x]))) (app_server app')"
    if "sessions_inv e D (concat (map server_events es)) (app_server app)" "system_step ow e D J app x app'" for es app x app'
    using that(2)
  proof (cases rule: system_server_step)
    case (moved cfgs ev)
    then show ?thesis using sessions_inv_step [OF that(1) moved(1)] by simp
  qed (use that(1) in \<open>simp_all add: sessions_inv_stop\<close>)
qed

text \<open>C6: What can stop the server: in every run of the program, with any number of sessions, signals and
  configurations, and with sessions used before or after they were inserted, a handler of the server
  throws exactly when a session has read a whole frame that is not a well-formed packet, when a
  session that was destroyed, which an expiry of its idle timer comes before, uses its socket, or when
  the accept handler, admitting a session, cannot get the address of the peer or a constructor of
  the session throws: with owners, when one of the three timeouts read does not convert; without, as
  in the program, always, with \<open>bad_weak_ptr\<close> unless the idle timeout does not convert.\<close>

theorem server_fails_iff:
  assumes "started_app app0" and "steps (system_step ow e D J) app0 es app"
    and "server_enabled (app_server app) ev"
  shows "server_fire ow e D J cfgs (app_server app) ev = Inl x \<longleftrightarrow>
    (\<exists>i cev c. ev = SE_conn i cev \<and> srv_conns (app_server app) i = Some c \<and>
       (malformed e c cev x \<or>
        \<not> alive c \<and> idle_expired (events_of_session i es) \<and> uses_socket c cev \<and> x = destroyed)) \<or>
    (\<exists>peer. ev = SE_accept None peer \<and> srv_open (app_server app) \<and>
       active_connections (app_server app) < max_sessions (app_server app) \<and>
       (peer = Inl x \<or> \<not> isl peer \<and> constructor_error ow J cfgs = Some x))"
proof (cases ev)
  case (SE_conn i cev)
  then obtain c where c: "srv_conns (app_server app) i = Some c" "enabled c cev"
    using assms(3) by (auto split: option.splits)
  note s = sessions_inv_conn [OF history.inv_steps [OF assms(1,2)] c(1)]
  have inv: "conn_inv (events_of_session i es) (view c)" using ran_inv [OF s(2)] by (simp add: events_of_session_def)
  note f = conn_inv_facts [OF inv]
  have dead: "\<not> alive c \<Longrightarrow> idle_expired (events_of_session i es)" using inv by (auto simp: conn_inv_def waits_inv_def)
  have en: "enabled (view c) cev" using c(2) by (simp add: enabled_def split: option.splits)
  have uses: "uses_socket (view c) cev = uses_socket c cev" by (cases "(c, cev)" rule: uses_socket.cases) simp_all
  have "session_fire b e D c cev = Inl x \<longleftrightarrow> fire e D (view c) cev = Inl x" for b
    using dispatch_view [OF rooted_complete [OF s(1)], of e D cev cev]
    by (cases "dispatch e D (complete cev c) cev") (auto simp: session_fire_Inl fire_Inl view_updates)
  then have "session_fire b e D c cev = Inl x \<longleftrightarrow>
      malformed e c cev x \<or> \<not> alive c \<and> uses_socket c cev \<and> x = destroyed" for b
    using fire_fails_iff [OF f(1,3,4) en, of e D x] by (simp add: malformed_def uses)
  then show ?thesis using SE_conn c(1) dead by (auto simp: rbind_eq_Inl)
qed (auto simp: accept_fails_iff)

text \<open>The peer of the one session of a server sends a frame with a body of one byte, before the session was inserted.\<close>

theorem server_fails_iff_witness:
  "\<exists>app es. steps (system_step True Little demo_archive demo_json) demo_app es app \<and>
     (\<exists>msg. server_fire True Little demo_archive demo_json demo_configs (app_server app)
        (SE_conn 0 (Ev_read_body 1 None [0])) = Inl (Invalid_argument msg))"
proof -
  let ?step = "system_step True Little demo_archive demo_json" and ?ev = "Ev_read_body 1 None [0::u8]"
    and ?len = "Ev_read_length None (be_bytes 4 1)"
  let ?c = "begin_body (of_nat 1) (complete ?len demo_new)"
  let ?s = "(app_server demo_app_accepted)\<lparr>srv_conns := (srv_conns (app_server demo_app_accepted))(0 \<mapsto> ?c)\<rparr>"
  let ?app = "demo_app_accepted\<lparr>app_server := ?s\<rparr>"
  have new: "owned demo_new" "on_close_set demo_new" "alive demo_new" "sock_open demo_new" "enabled demo_new ?len"
    by (simp_all add: demo_new_def fresh_connection_def enabled_def)
  have "ntohl Little (load_u32 Little (be_bytes 4 1)) = 1"
    by (simp add: ntohl_load load_store del: store_def)
  then have "dispatch Little demo_archive (complete ?len demo_new) ?len = Inr ?c"
    using new by (simp add: read_length_handler_outcome Let_def word_less_nat_alt del: store_def)
  then have "server_step True Little demo_archive demo_json (same_config (app_config demo_app_accepted))
      (app_server demo_app_accepted) (SE_conn 0 ?len) ?s"
    using new demo_app_facts(4)
    by (simp add: server_step_iff demo_app_accepted_def demo_accepted_def demo_server_def del: dispatch.simps)
  then have st: "?step demo_app_accepted (SY_server (SE_conn 0 ?len)) ?app"
    by (rule handler [rotated]) (simp add: demo_app_accepted_def demo_app_def)
  have run: "steps ?step demo_app [SY_server (SE_accept None (Inr (''a'', 1))), SY_server (SE_conn 0 ?len)] ?app"
    by (rule steps_Cons [where step = ?step, OF demo_app_accept steps_single [where step = ?step, OF st]])
  have c: "srv_conns (app_server ?app) 0 = Some ?c" "enabled ?c ?ev" "sock_open ?c"
    using new by (simp_all add: enabled_def begin_body_def)
  obtain msg where bad: "malformed Little ?c ?ev (Invalid_argument msg)" by (rule demo_malformed [OF c(3)])
  have "server_fire True Little demo_archive demo_json demo_configs (app_server ?app) (SE_conn 0 ?ev) = Inl (Invalid_argument msg)"
    using server_fails_iff [OF demo_app_facts(1) run, of "SE_conn 0 ?ev" demo_configs "Invalid_argument msg"] c bad by auto
  with run show ?thesis by blast
qed

end
