(* ===== verification/Transmission.thy ===== *)
theory Transmission
  imports Stream_Run
begin

section \<open>From \<open>create\<close> through the writer, and into the reader\<close>

text \<open>
  Messages: what \<open>Packet::create\<close> makes of them, in which order they leave when they are handed to
  \<open>write_packet\<close>, what the constructor of \<open>Packet\<close> makes of the bytes sent, and what the \<open>Reader\<close> makes
  of them, which counts the length of a packet differently.
\<close>

subsection \<open>Messages\<close>







subsection \<open>The order of the calls\<close>

text \<open>
  The packets handed to \<open>write_packet\<close>, in the order of the calls. Each call posts a closure to the
  strand of the session; a run leaves open in which order the closures are run. Boost.Asio promises
  that a strand runs what was posted to it in the order of the posts: \<open>strand_fifo\<close>.
\<close>

fun handed_by :: "event \<Rightarrow> bytes list" where
  "handed_by (Ev_write_packet b) = [b]"
| "handed_by _ = []"

definition handed :: "event list \<Rightarrow> bytes list" where
  "handed es = concat (map handed_by es)"


lemma handed_snoc [simp]: "handed (es @ [ev]) = handed es @ handed_by ev"
  by (simp add: handed_def)

fun is_posted :: "async_op \<Rightarrow> bool" where
  "is_posted (Op_post _) = True"
| "is_posted _ = False"

definition posts :: "connection \<Rightarrow> async_op multiset" where
  "posts c = filter_mset is_posted (pending c)"

lemma posts_updates [simp]:
  "posts (upd_reader f c) = posts c" "posts (upd_writer g c) = posts c" "posts (emit y c) = posts c"
  "posts (stop_conn c) = posts c" "posts (release_by k c) = posts c" "posts (set_idle_expiry z c) = posts c"
  "posts (set_read_expiry z c) = posts c" "posts (set_write_expiry z c) = posts c"
  "posts (start_op x c) = (if is_posted x then add_mset x (posts c) else posts c)"
  "posts (begin_length c) = posts c" "posts (begin_body n c) = posts c" "posts (begin_write b c) = posts c"
  by (simp_all add: posts_def begin_length_def begin_body_def begin_write_def)

lemma posts_complete: "posts (complete ev c) = posts c - image_mset Op_post (mset (posted_by ev))"
  by (cases ev) (simp_all add: posts_def complete_def)

lemma dispatch_posts:
  assumes "life_ok c" and "dispatch e D c ev = Inr c'"
  shows "posts c' = posts c + image_mset Op_post (mset (handed_by ev))"
  using assms(2) life_ok_owned [OF assms(1)]
  by (cases "alive c"; cases "(e, D, c, ev)" rule: dispatch.cases)
    (auto simp: handler_outcome rbind_eq_Inr Let_def split: if_splits option.splits list.splits)

definition posts_inv :: "event list \<Rightarrow> connection \<Rightarrow> bool" where
  "posts_inv es c \<longleftrightarrow> life_ok c \<and>
     image_mset Op_post (mset (handed es)) = image_mset Op_post (mset (posted es)) + posts c"

lemma posts_step:
  assumes "posts_inv es c" and "held_step h e D c ev c'"
  shows "posts_inv (es @ [ev]) c'"
proof -
  have life: "life_ok c" using assms(1) by (simp add: posts_inv_def)
  obtain c2 k where en: "enabled c ev" and d: "dispatch e D (complete ev c) ev = Inr c2" and c': "c' = release_by k c2"
    using assms(2) by (rule held_stepE)
  have "image_mset Op_post (mset (posted_by ev)) \<subseteq># posts c"
    using en by (cases ev) (simp_all add: enabled_def posts_def)
  then obtain others where "posts c = image_mset Op_post (mset (posted_by ev)) + others"
    by (auto simp: mset_subset_eq_exists_conv)
  then show ?thesis
    using assms(1) dispatch_posts [OF life_ok_complete [OF life] d] life_step [OF life assms(2)]
    by (simp add: posts_inv_def posts_complete c' ac_simps)
qed

interpretation posts: safe_machine "held_step h e D" fresh posts_inv for h e D
proof
  show "fresh c \<Longrightarrow> posts_inv [] c" for c
    using life_fresh [of c]
    by (auto simp: posts_inv_def fresh_def fresh_connection_def posts_def handed_def posted_def)
qed (rule posts_step)




subsection \<open>Sending what \<open>create\<close> makes to the reader\<close>







end
