(* ===== verification/Spec2Isabelle.thy ===== *)
theory Spec2Isabelle
  imports Packet_Props Loops Config_Props Connection_Props Timers_Props Connection_Wf Stream_Run Channel Server_Props
    Service Logger_Threads Auth_Props Language_Props Application_Props System
    Program Server_History Failures Transmission
begin

text \<open>
  \<^bold>\<open>A verification of the scalable TCP server\<close>

  The program is a TCP server on Boost.Asio. \<open>Application\<close> reads \<open>config.json\<close>, makes the logger and
  the \<open>Server\<close>, waits for signals and runs the handlers on a pool of worker threads. The server
  accepts connections up to a limit and makes a \<open>Session\<close> of each, with a \<open>Reader\<close>, a \<open>Writer\<close> and three
  deadline timers. The reader cuts the bytes received into packets, the constructor of \<open>Packet\<close>
  parses them, and the session routes them; the one route there is leads to the login coroutine and
  its database statements. The writer sends the packets posted to it one after the other.

  \<^bold>\<open>How the parts are modelled\<close>

  Definitions bear the names of the functions under \<open>src/\<close> they translate, with a prefix where a name is
  taken (\<open>config_load\<close>, \<open>session_stop\<close>, \<open>server_new\<close>, \<open>app_run\<close>). Members are fields of records,
  exceptions and undefined behaviour are values of \<open>cpp_exn\<close> in the sum type \<open>'a res\<close>, integers keep
  their width, and the byte order of the host is an argument. Library code is an argument or an event:
  Boost.JSON is the record \<open>json_ops\<close> with the contract \<open>json_ok\<close>, the archive a function, the
  database a function of the calls made so far, files and clock are arguments. An operation started
  with Boost.Asio is an element of the multiset \<open>pending\<close>; its completion is an event, with any result
  in any order that the documentation allows.

  \<^item> \<open>Prelude\<close>: results, byte orders, memory accesses that check their bounds, decimal numbers;
    \<open>Codec\<close>: the contract of self-delimiting codes; \<open>Machine\<close>: runs of a step relation, and the
    contracts of an invariant and of a simulation.
  \<^item> \<open>Packet_Types\<close>, \<open>Packet\<close> (\<open>common/packet.cpp\<close>, \<open>packet.hpp\<close>, \<open>packet_enums.hpp\<close>,
    \<open>sub_header_type.hpp\<close>): making and parsing packets, the sub-header table, the getters.
    \<open>Packet_Spec\<close> describes the format without the code's order of tests; \<open>Packet_Props\<close> shows that the
    constructor accepts exactly that format, without reading out of bounds, and that it reads back what
    \<open>create\<close> makes. \<open>Loops\<close> writes the two input-driven loops of the program as \<open>while_option\<close> and
    bounds their iterations.
  \<^item> \<open>File_Stream\<close>, \<open>Config\<close>, \<open>Json_Instance\<close>, \<open>Config_Props\<close> (\<open>src/config/\<close>): reading the file in chunks,
    loading and reloading, dotted keys, the typed getters; a concrete JSON value type that meets the
    contract, for the witnesses.
  \<^item> \<open>Session_Core\<close>, \<open>Router\<close>, \<open>Reader\<close>, \<open>Writer\<close>, \<open>Session\<close> (\<open>src/session/\<close>, \<open>src/network/\<close>, \<open>src/router/\<close>,
    \<open>src/components/auth/auth_handler.cpp\<close>): the state of a connection, its handlers, its lifetime.
    \<open>Connection\<close> makes of it a state machine whose events are completions. \<open>Connection_Inv\<close> gives the
    outcome of every handler, \<open>Connection_Runs\<close> and \<open>Connection_Safety\<close> the invariants of every run, with
    the interpretations \<open>conn\<close> and, for a session that something outside the connection keeps alive
    (\<open>held_step\<close>), \<open>held\<close>; \<open>Framing\<close> is the specification of the byte stream; \<open>Connection_Props\<close>
    has the properties. \<open>Stream_Run\<close> feeds a connection any bytes, in any segments, and compares it with a
    walk over the bytes that knows no connection; and it lets the writer empty its queue. \<open>Transmission\<close>
    follows messages from \<open>create\<close> through the writer, shows that the constructor of \<open>Packet\<close> gets them
    back from what is sent, in order, and what the reader of this program makes of them instead.
  \<^item> \<open>Timers\<close>, \<open>Timers_Inv\<close>, \<open>Timers_Props\<close>: the same connection with a clock and the contract of
    \<^verbatim>\<open>steady_timer\<close>; timeouts are neither early nor, when handlers run promptly, late. \<open>Connection_Wf\<close> is
    the representation invariant as one predicate. \<open>Channel\<close> is the specification of a connection as a
    framed channel, which the timed connection simulates; \<open>shows_channel\<close> ties the bytes and the packets of
    a channel to the events of a run.
  \<^item> \<open>Strings\<close>, \<open>Logger\<close>, \<open>Logger_Props\<close> (\<open>src/logger/\<close>): levels, paths, the daily file, \<open>log\<close>; it refines
    the append of whole blocks of entries, of one date each, to the files of their days (\<open>day_blocks\<close>);
    what can be opened may be different at each call. \<open>Logger_Threads\<close> splits a call into its steps, which
    together do what \<open>log\<close> does (\<open>log_alone\<close>), and interleaves the calls of several threads.
  \<^item> \<open>Server\<close>, \<open>Server_Inv\<close>, \<open>Server_Props\<close> (\<open>src/server/\<close>): construction, workers, the accept loop and the set
    of sessions, interleaved with the handlers of all sessions; the limit, the independence of the
    sessions, and what goes wrong between \<open>start\<close> and the insertion. \<open>Server_Timed\<close> gives the server one
    clock and each session its timers; each session simulates a timed connection of its own, so that the
    timeouts hold for all sessions at once. A session has its \<open>view\<close> there: the accept handler keeps a
    session alive until its insertion, and after it when the session had stopped before, which for the
    connection is a holder from outside; so all this holds of the sessions used before they were
    inserted, too. \<open>Server_History\<close> carries the facts about runs of a connection,
    prompt or not, over to the sessions of the server. \<open>Service\<close> is the specification of the whole server, a growing
    list of channels with a limit, which the server in time simulates.
  \<^item> \<open>Validation\<close>, \<open>Auth_Types\<close>, \<open>Auth_Service\<close>, \<open>Auth_Props\<close> (\<open>common/utils/\<close>, \<open>common/auth/\<close>,
    \<open>src/components/auth/\<close>): the validators with a regular expression matcher that is shown to decide
    the language of its expression, and the login coroutine.
  \<^item> \<open>Language_Provider\<close>, \<open>Language_Props\<close> (\<open>common/locales/\<close>): the tables of messages.
  \<^item> \<open>Application\<close>, \<open>Application_Props\<close> (\<open>src/application/\<close>, \<open>src/main.cpp\<close>): start, signals, run and stop.
    \<open>System\<close> runs the application with its server: signals between the handlers, reloads, also between
    the three reads of the configuration within one accept (\<open>SY_accept\<close>, \<open>config_reads\<close>), and the end,
    which an accept in progress outlives by its last part.
    \<open>Program\<close> runs that system from the state the constructor of \<open>Application\<close> and \<open>run\<close> hand to the workers
    (\<open>serving\<close>), with the constructors of the sessions as they are.
  \<^item> \<open>Failures\<close>: every exception and every undefined behaviour of the handlers of a connection and of the
    server, exactly: when it happens and which it is, in every run of the program.

  \<^bold>\<open>How the parts meet\<close>

  A handler of the reader calls \<open>on_packet\<close>, which parses with \<open>packet_from_bytes\<close> and routes; the
  server's steps contain the handlers of every connection; the application owns the server. The
  constructors of \<open>Session\<close>, \<open>Reader\<close> and \<open>Writer\<close> call \<^verbatim>\<open>shared_from_this\<close> before an owner exists.
  They take a flag that says whether one does. With the flag unset, as the program has it, no session
  can be made, which \<open>program_serves_nobody\<close> shows of the whole program. The properties of a connection
  start from one whose constructors had owners, that is, they are about the rest of the code; those of
  the server and of the program hold with the flag set and unset, and say much of sessions only with it
  set. A session is made from a triple of configurations, as each constructor reads the shared one for
  itself.

  \<^bold>\<open>Contracts\<close>

  \<open>self_delimiting\<close> is interpreted by the frames the reader expects (\<open>frames\<close>) and by the
  sub-headers (\<open>sub_items\<close>); \<open>safe_machine\<close> by the connection (\<open>conn\<close>, \<open>held\<close>), the calls of
  \<open>write_packet\<close> in it (\<open>posts\<close>), its timed and prompt runs (\<open>timed\<close>, \<open>prompt\<close>), its representation invariant
  (\<open>wf\<close>), the server (\<open>counting\<close>, \<open>each\<close>, \<open>rooting\<close>, \<open>staleness\<close>, \<open>unowned\<close>), the whole
  program (\<open>system\<close>, \<open>running\<close>, \<open>nobody\<close>, and \<open>history\<close> for each of its sessions) and the calls of the logger on several threads (\<open>writing\<close>, \<open>silence\<close>);
  \<open>deadline_handler\<close> by the completion handlers of the three timers (\<open>timer\<close>);
  \<open>simulation\<close> by the connection as a channel (\<open>channel\<close>), the timed connection as a connection
  (\<open>untimed\<close>), the timed server as each of its sessions (\<open>moving\<close>, and in prompt runs
  \<open>session\<close>) and as a service (\<open>service\<close>).

  \<^bold>\<open>Loops and bounds\<close>

  There is no fuel. Loops are recursive functions with termination proofs: the sub-header loop steps over
  three bytes or more of a region of at most 1024, the reading loop over 512 bytes of the file, the
  workers are counted up to their number, and \<open>feed\<close> uses up its bytes or the one pending read of an empty
  body. Runs are finite sequences of events of any length; a property
  of every run holds at every moment of an infinite one.

  \<^bold>\<open>The order of the strand\<close>

  The closures that \<open>add_packet\<close> posts to the strand are a multiset of which any may run next. This is more
  than Boost.Asio allows, which runs them in the order of the calls, so what holds of every run
  holds of those. Where the order of the calls matters it is the hypothesis \<open>strand_fifo\<close>: the packets
  whose closures have run are the first of those handed to \<open>write_packet\<close>.

  \<^bold>\<open>Not modelled\<close>

  \<^item> \<open>src/pools/\<close> and \<open>src/services/\<close> are empty classes and empty files; \<open>database/schema.sql\<close> and the build
    files hold no code of the server.
  \<^item> \<open>Packet::getSubHeader\<close> and \<open>setSubHeader\<close> are declared and never defined; \<open>Session::get_executor\<close>
    returns a handle of the socket.
  \<^item> A handler is one step. The strands serialise the handlers of a session; the accept handler is two
    steps, as sessions may run between them. The logger, the configuration and the acceptor are not locked:
    two calls of \<open>log\<close> at the same time, or a signal during an accept, are data races, to which C++ gives
    no meaning at all. \<open>Logger_Threads\<close> and \<open>SY_accept\<close> take each access as one step; a torn access is not
    modelled. A terminating signal may come between the two steps of an accept; one between the
    reads of the configuration does what one between the two steps does, as nothing in between looks
    at the acceptor or the event loop.
  \<^item> Deadlines are unbounded integers. A timeout is an int of seconds, at most 68 years, and
    \<^verbatim>\<open>steady_timer\<close> counts 64-bit nanoseconds, 292 years: a deadline overflows only after two centuries
    of uptime.
  \<^item> What is destroyed after the workers have returned, when \<open>main\<close> leaves the scope of the application: the
    sessions with their sockets and the handlers still queued. No code of the repository runs there.
  \<^item> The completion of the login coroutine is an event without effect on the connection (\<open>Ev_login\<close>); that
    no run has one is part of the invariant, as no packet is routed to it (\<open>login_is_unreachable\<close>). The
    coroutine itself is \<open>login\<close> in \<open>Auth_Service\<close>.
\<close>

end
